theory Spec2Isabelle
  imports Main "HOL-Library.Word"
begin

section \<open>Fingerprints, file names and response headers (package imageapi)\<close>

subsection \<open>Decimal formatting\<close>

text \<open>
  \<^verbatim>\<open>fmt.Sprintf("%d", n)\<close> and \<^verbatim>\<open>strconv.Itoa\<close> print a Go \<^verbatim>\<open>int\<close> in decimal: a minus sign
  for a negative value, then the digits of the magnitude with no leading zero. Only the
  value is printed and no arithmetic is done on it, so the integer is an \<^typ>\<open>int\<close> here.
\<close>

definition digits :: string where
  "digits = ''0123456789''"

definition is_digit :: "char \<Rightarrow> bool" where
  "is_digit c = (c \<in> set digits)"

fun utoa :: "nat \<Rightarrow> string" where
  "utoa n = (if n < 10 then [digits ! n] else utoa (n div 10) @ [digits ! (n mod 10)])"

declare utoa.simps [simp del]

definition itoa :: "int \<Rightarrow> string" where
  "itoa i = (if i < 0 then CHR ''-'' # utoa (nat (- i)) else utoa (nat i))"

subsection \<open>Request parameters\<close>

text \<open>
  Modelled from the spec: the declaration of \<^verbatim>\<open>params.Params\<close> is not among the sources;
  the fields are the ones \<^verbatim>\<open>image.go\<close> reads, with the types of their uses
  (\<^verbatim>\<open>%d\<close> for the integers, \<^verbatim>\<open>%s\<close> and \<^verbatim>\<open>switch\<close> for the extension).
\<close>

record Params =
  Width :: int
  Height :: int
  Blur :: bool
  BlurAmount :: int
  Grayscale :: bool
  Extension :: string

text \<open>
  The parameter space of the data model: a non-empty id, both dimensions between 1 and
  5000, the extension \<^verbatim>\<open>.jpg\<close> or \<^verbatim>\<open>.webp\<close>, and a blur amount between 1 and 10 when the
  blur flag is set. Without the flag a request has no blur amount, so the field is left
  unconstrained and is not part of the parameter vector (see \<open>same_parameters\<close>).
\<close>

definition in_param_space :: "string \<Rightarrow> Params \<Rightarrow> bool" where
  "in_param_space imageID p =
     (imageID \<noteq> [] \<and> 0 < Width p \<and> Width p \<le> 5000 \<and> 0 < Height p \<and> Height p \<le> 5000
      \<and> (Extension p = ''.jpg'' \<or> Extension p = ''.webp'')
      \<and> (Blur p \<longrightarrow> 1 \<le> BlurAmount p \<and> BlurAmount p \<le> 10))"

definition same_parameters :: "string \<Rightarrow> Params \<Rightarrow> string \<Rightarrow> Params \<Rightarrow> bool" where
  "same_parameters id1 p1 id2 p2 =
     (id1 = id2 \<and> Width p1 = Width p2 \<and> Height p1 = Height p2
      \<and> Extension p1 = Extension p2 \<and> Blur p1 = Blur p2
      \<and> (Blur p1 \<longrightarrow> BlurAmount p1 = BlurAmount p2) \<and> Grayscale p1 = Grayscale p2)"

subsection \<open>buildCacheKey and buildFilename\<close>

definition buildCacheKey :: "string \<Rightarrow> Params \<Rightarrow> string" where
  "buildCacheKey imageID p =
     (let key = imageID @ ''-'' @ itoa (Width p) @ ''x'' @ itoa (Height p) @ Extension p;
          key = (if Blur p then key @ ''-blur_'' @ itoa (BlurAmount p) else key);
          key = (if Grayscale p then key @ ''-grayscale'' else key)
      in key)"

definition buildFilename :: "string \<Rightarrow> Params \<Rightarrow> string" where
  "buildFilename imageID p =
     (let filename = imageID @ ''-'' @ itoa (Width p) @ ''x'' @ itoa (Height p);
          filename = (if Blur p then filename @ ''-blur_'' @ itoa (BlurAmount p) else filename);
          filename = (if Grayscale p then filename @ ''-grayscale'' else filename);
          filename = filename @ Extension p
      in filename)"

definition getContentType :: "string \<Rightarrow> string" where
  "getContentType extension = (if extension = ''.webp'' then ''image/webp'' else ''image/jpeg'')"

subsection \<open>sendImage\<close>

text \<open>
  The response writer: the header map, the status line (written as 200 by the first
  \<^verbatim>\<open>Write\<close> when no status was set before) and the body written so far.
\<close>

type_synonym bytes = "8 word list"

record ResponseWriter =
  Header :: "string \<rightharpoonup> string"
  status :: "int option"
  body :: bytes

definition Header_Set :: "string \<Rightarrow> string \<Rightarrow> ResponseWriter \<Rightarrow> ResponseWriter" where
  "Header_Set k v w = w\<lparr>Header := (Header w)(k \<mapsto> v)\<rparr>"

definition Write :: "bytes \<Rightarrow> ResponseWriter \<Rightarrow> ResponseWriter" where
  "Write b w = w\<lparr>status := (case status w of None \<Rightarrow> Some 200 | Some c \<Rightarrow> Some c),
                 body := body w @ b\<rparr>"

definition quote :: string where
  "quote = [CHR 0x22]"

definition sendImage :: "ResponseWriter \<Rightarrow> string \<Rightarrow> Params \<Rightarrow> bytes \<Rightarrow> ResponseWriter" where
  "sendImage w imageID p processedImage =
     (let w = Header_Set ''Content-Disposition''
                (''inline; filename='' @ quote @ buildFilename imageID p @ quote) w;
          w = Header_Set ''Content-Type'' (getContentType (Extension p)) w;
          w = Header_Set ''Content-Length'' (itoa (int (length processedImage))) w;
          w = Header_Set ''Cache-Control''
                ''public, max-age=2592000, stale-while-revalidate=60, stale-if-error=43200, immutable'' w;
          w = Header_Set ''Picsum-ID'' imageID w;
          w = Header_Set ''Timing-Allow-Origin'' ''*'' w
      in Write processedImage w)"

definition newResponseWriter :: ResponseWriter where
  "newResponseWriter = \<lparr>Header = Map.empty, status = None, body = []\<rparr>"

text \<open>The two optional suffixes of a cache key, over the magnitude of the blur amount.\<close>

definition blur_suffix :: "bool \<Rightarrow> nat \<Rightarrow> string" where
  "blur_suffix b n = (if b then ''-blur_'' @ utoa n else [])"

definition gray_suffix :: "bool \<Rightarrow> string" where
  "gray_suffix g = (if g then ''-grayscale'' else [])"

section \<open>Contexts, errors and channels\<close>

text \<open>
  A \<^verbatim>\<open>context.Context\<close> is shared between goroutines and changes under them, so it is a
  reference; what a goroutine reads from it at some moment, \<^verbatim>\<open>ctx.Err()\<close>, comes from the
  environment of that moment: \<open>None\<close> is \<^verbatim>\<open>nil\<close> (the context is live and \<^verbatim>\<open>ctx.Done()\<close> is
  open), \<open>Some e\<close> is the cancellation cause (and \<^verbatim>\<open>ctx.Done()\<close> is closed).
\<close>

datatype ctx_error = Canceled | DeadlineExceeded

type_synonym ctx = nat

type_synonym ctx_env = "ctx \<Rightarrow> ctx_error option"

text \<open>
  Go errors: the two context errors, an error made from a message
  (\<^verbatim>\<open>fmt.Errorf\<close>, \<^verbatim>\<open>errors.New\<close>), an error wrapping another one, and the sentinel
  \<^verbatim>\<open>queue.ErrQueueFull\<close>.

  Modelled from the spec: \<^verbatim>\<open>image.go\<close> tests \<^verbatim>\<open>errors.Is(err, queue.ErrQueueFull)\<close>, but the
  declaration of \<^verbatim>\<open>ErrQueueFull\<close> is not among the sources of package queue; it is the
  dedicated queue-full error of the spec.
\<close>

datatype error = ContextError ctx_error | ErrorString string | Wrapped string error | ErrQueueFull

fun is_ErrQueueFull :: "error \<Rightarrow> bool" where
  "is_ErrQueueFull ErrQueueFull = True"
| "is_ErrQueueFull (Wrapped m e) = is_ErrQueueFull e"
| "is_ErrQueueFull (ContextError e) = False"
| "is_ErrQueueFull (ErrorString m) = False"

text \<open>
  A channel: its capacity, the values buffered in it, oldest first, and whether it has
  been closed. An operation tried now either proceeds, or panics, or is not ready: a
  \<^verbatim>\<open>select\<close> without \<^verbatim>\<open>default\<close> chooses among the cases that are ready and parks the
  goroutine while none is. A goroutine parked in a receive leaves the buffer empty, so
  for a channel with a buffer the readiness of a send is decided by the buffer alone.
\<close>

record 'a chan =
  cap :: nat
  buf :: "'a list"
  is_closed :: bool

datatype 'a attempt = Blocks | Panics | Proceeds 'a

definition make_chan :: "nat \<Rightarrow> 'a chan" where
  "make_chan n = \<lparr>cap = n, buf = [], is_closed = False\<rparr>"

definition chan_send :: "'a chan \<Rightarrow> 'a \<Rightarrow> 'a chan attempt" where
  "chan_send c v =
     (if is_closed c then Panics
      else if length (buf c) < cap c then Proceeds (c\<lparr>buf := buf c @ [v]\<rparr>)
      else Blocks)"

text \<open>A receive yields the value and \<^verbatim>\<open>open = true\<close>, or \<open>None\<close> for \<^verbatim>\<open>open = false\<close>.\<close>

definition chan_recv :: "'a chan \<Rightarrow> ('a option \<times> 'a chan) attempt" where
  "chan_recv c =
     (case buf c of
        v # vs \<Rightarrow> Proceeds (Some v, c\<lparr>buf := vs\<rparr>)
      | [] \<Rightarrow> if is_closed c then Proceeds (None, c) else Blocks)"

definition chan_close :: "'a chan \<Rightarrow> 'a chan attempt" where
  "chan_close c = (if is_closed c then Panics else Proceeds (c\<lparr>is_closed := True\<rparr>))"

section \<open>Request log and panic recovery (package handler)\<close>

datatype level = Debug | Info | Error

text \<open>
  \<^verbatim>\<open>Logger\<close> runs the inner handler, then logs one line. Its level and message are chosen
  by the \<^verbatim>\<open>switch\<close> on the captured status code and on \<^verbatim>\<open>ctx.Err()\<close> of the request, the
  value the context has while the \<^verbatim>\<open>switch\<close> runs.
\<close>

definition StatusServiceUnavailable :: int where
  "StatusServiceUnavailable = 503"

definition StatusInternalServerError :: int where
  "StatusInternalServerError = 500"

definition Logger :: "int \<Rightarrow> ctx_error option \<Rightarrow> level \<times> string" where
  "Logger code ctxErr =
     (if code = StatusServiceUnavailable \<and> ctxErr = Some Canceled
        then (Info, ''Request cancelled by client'')
      else if code = StatusServiceUnavailable \<and> ctxErr = Some DeadlineExceeded
        then (Error, ''Request timeout'')
      else if code \<ge> 500 then (Error, ''Request completed'')
      else (Debug, ''Request completed''))"

text \<open>
  \<^verbatim>\<open>Recovery\<close>: the deferred function runs when the inner handler returns or panics; on a
  panic it writes status 500 and logs at level Error. The flag says whether the inner
  handler panicked.
\<close>

definition WriteHeader :: "int \<Rightarrow> ResponseWriter \<Rightarrow> ResponseWriter" where
  "WriteHeader c w = w\<lparr>status := (case status w of None \<Rightarrow> Some c | Some c' \<Rightarrow> Some c')\<rparr>"

definition Recovery :: "ResponseWriter \<Rightarrow> bool \<Rightarrow> ResponseWriter \<times> (level \<times> string) list" where
  "Recovery w panicked =
     (if panicked then (WriteHeader StatusInternalServerError w, [(Error, ''panic handling request'')])
      else (w, []))"

section \<open>The worker queue (package queue)\<close>

text \<open>
  A job result is \<^verbatim>\<open>jobResult{result, err}\<close>; \<open>None\<close> is \<^verbatim>\<open>nil\<close> in both fields. A job holds
  its payload, its result channel and the caller's context; both are references, the
  result channels living in a heap that \<^verbatim>\<open>Process\<close> and the workers share.
\<close>

datatype 'r jobResult = JobResult "'r option" "error option"

record 'd job =
  job_data :: 'd
  job_result :: nat
  job_context :: ctx

type_synonym 'r heap = "'r jobResult chan list"

type_synonym ('d, 'r) handler = "ctx \<Rightarrow> 'd \<Rightarrow> 'r option \<times> error option"

record ('d, 'r) Queue =
  q_workers :: int
  q_queue :: "'d job chan"
  q_handler :: "('d, 'r) handler"
  q_ctx :: ctx

text \<open>
  \<^verbatim>\<open>New\<close>: the intake channel is made with capacity \<^verbatim>\<open>workers*4\<close>, a product of 64-bit
  integers; \<^verbatim>\<open>make\<close> panics on a negative size. (It also panics on a size beyond the
  memory of the machine; here such a queue is made, so the queues of the model include
  every queue the program can make.)
\<close>

definition wrap64 :: "int \<Rightarrow> int" where
  "wrap64 x = (x + 2 ^ 63) mod 2 ^ 64 - 2 ^ 63"

definition New :: "ctx \<Rightarrow> int \<Rightarrow> ('d, 'r) handler \<Rightarrow> ('d, 'r) Queue attempt" where
  "New c workers h =
     (let size = wrap64 (workers * 4)
      in if size < 0 then Panics
         else Proceeds \<lparr>q_workers = workers, q_queue = make_chan (nat size),
                          q_handler = h, q_ctx = c\<rparr>)"

text \<open>
  \<^verbatim>\<open>Run\<close> starts \<^verbatim>\<open>q.workers\<close> worker goroutines, waits for the queue's context to be
  done and closes the intake channel.
\<close>

definition Run_workers :: "('d, 'r) Queue \<Rightarrow> nat" where
  "Run_workers q = nat (q_workers q)"

definition Run :: "ctx_env \<Rightarrow> ('d, 'r) Queue \<Rightarrow> ('d, 'r) Queue attempt" where
  "Run env q =
     (if env (q_ctx q) = None then Blocks
      else case chan_close (q_queue q) of
             Proceeds c \<Rightarrow> Proceeds (q\<lparr>q_queue := c\<rparr>)
           | Panics \<Rightarrow> Panics
           | Blocks \<Rightarrow> Blocks)"

subsection \<open>The worker\<close>

text \<open>
  What a worker does, in program order: the calls to the runtime that pin or release
  its thread, the jobs it receives, the handler calls and the sends of results.
\<close>

datatype ('d, 'r) action =
    LockOSThread
  | UnlockOSThread
  | Receive "'d job"
  | CallHandler ctx 'd
  | SendResult nat "'r jobResult"

text \<open>A send on a result channel of the heap; a reference outside the heap is a nil channel.\<close>

definition send_on :: "'r heap \<Rightarrow> nat \<Rightarrow> 'r jobResult \<Rightarrow> 'r heap attempt" where
  "send_on hp r v =
     (if r < length hp then
        (case chan_send (hp ! r) v of
           Proceeds c \<Rightarrow> Proceeds (hp[r := c])
         | Panics \<Rightarrow> Panics
         | Blocks \<Rightarrow> Blocks)
      else Blocks)"

text \<open>
  The body of the loop for a received job (lines 62 to 69): the context check, the
  handler call, and the one send on the job's result channel.
\<close>

definition worker_job ::
  "ctx_env \<Rightarrow> ('d, 'r) handler \<Rightarrow> 'd job \<Rightarrow> 'r heap \<Rightarrow> ('d, 'r) action list \<times> 'r heap attempt" where
  "worker_job env h j hp =
     (case env (job_context j) of
        Some e \<Rightarrow>
          (let v = JobResult None (Some (ContextError e))
           in ([SendResult (job_result j) v], send_on hp (job_result j) v))
      | None \<Rightarrow>
          (let (result, err) = h (job_context j) (job_data j);
               v = JobResult result err
           in ([CallHandler (job_context j) (job_data j), SendResult (job_result j) v],
               send_on hp (job_result j) v)))"

text \<open>
  The worker's \<^verbatim>\<open>select\<close> has two cases: the receive from the intake channel, ready when
  a job is buffered or the channel is closed, and the queue's \<^verbatim>\<open>ctx.Done()\<close>, ready once
  the parent context is cancelled. The runtime chooses among the ready cases.
\<close>

datatype wcase = RecvQueue | CtxDone

definition worker_ready :: "ctx_env \<Rightarrow> ('d, 'r) Queue \<Rightarrow> wcase list" where
  "worker_ready env q =
     (if chan_recv (q_queue q) \<noteq> Blocks then [RecvQueue] else [])
     @ (if env (q_ctx q) \<noteq> None then [CtxDone] else [])"

datatype wnext = Continue | Returned | Blocked | Panicked

text \<open>
  One iteration of the loop with the chosen case: the actions, the queue and the heap
  after it, and how the worker goes on.
\<close>

definition worker_iter ::
  "ctx_env \<Rightarrow> ('d, 'r) Queue \<Rightarrow> 'r heap \<Rightarrow> wcase
     \<Rightarrow> ('d, 'r) action list \<times> ('d, 'r) Queue \<times> 'r heap \<times> wnext" where
  "worker_iter env q hp c =
     (if c \<notin> set (worker_ready env q) then ([], q, hp, Blocked)
      else case c of
        CtxDone \<Rightarrow> ([], q, hp, Returned)
      | RecvQueue \<Rightarrow>
          (case chan_recv (q_queue q) of
             Proceeds (None, ch) \<Rightarrow> ([], q, hp, Returned)
           | Proceeds (Some j, ch) \<Rightarrow>
               (case worker_job env (q_handler q) j hp of
                  (acts, Proceeds hp') \<Rightarrow> (Receive j # acts, q\<lparr>q_queue := ch\<rparr>, hp', Continue)
                | (acts, Blocks) \<Rightarrow> (Receive j # acts, q\<lparr>q_queue := ch\<rparr>, hp, Blocked)
                | (acts, Panics) \<Rightarrow> (Receive j # acts, q\<lparr>q_queue := ch\<rparr>, hp, Panicked))
           | Blocks \<Rightarrow> ([], q, hp, Blocked)
           | Panics \<Rightarrow> ([], q, hp, Panicked)))"

text \<open>
  The worker goroutine: \<^verbatim>\<open>runtime.LockOSThread()\<close>, then the loop. The other goroutines
  run between its iterations, so a run is given by what the worker finds at each
  iteration (the environment, the queue, the heap) and the case the runtime chooses.
\<close>

fun worker_loop :: "(ctx_env \<times> ('d, 'r) Queue \<times> 'r heap \<times> wcase) list \<Rightarrow> ('d, 'r) action list" where
  "worker_loop [] = []"
| "worker_loop ((env, q, hp, c) # rest) =
     (case worker_iter env q hp c of
        (acts, q', hp', Continue) \<Rightarrow> acts @ worker_loop rest
      | (acts, q', hp', Returned) \<Rightarrow> acts
      | (acts, q', hp', Blocked) \<Rightarrow> acts
      | (acts, q', hp', Panicked) \<Rightarrow> acts)"

definition worker :: "(ctx_env \<times> ('d, 'r) Queue \<times> 'r heap \<times> wcase) list \<Rightarrow> ('d, 'r) action list" where
  "worker sched = LockOSThread # worker_loop sched"

subsection \<open>Process\<close>

text \<open>\<^verbatim>\<open>Process\<close> returns \<^verbatim>\<open>(interface{}, error)\<close>; \<open>None\<close> is \<^verbatim>\<open>nil\<close>.\<close>

type_synonym 'r returned = "'r option \<times> error option"

definition shutdown_error :: error where
  "shutdown_error = ErrorString ''queue has been shutdown''"

text \<open>
  Lines 79 to 83: the check of the queue's context, then the result channel, made with
  capacity 1 and placed at a fresh reference of the heap.
\<close>

definition Process_begin ::
  "ctx_env \<Rightarrow> ('d, 'r) Queue \<Rightarrow> 'r heap \<Rightarrow> 'r returned + (nat \<times> 'r heap)" where
  "Process_begin env q hp =
     (if env (q_ctx q) \<noteq> None then Inl (None, Some shutdown_error)
      else Inr (length hp, hp @ [make_chan 1]))"

text \<open>
  The first \<^verbatim>\<open>select\<close> (lines 85 to 95) has three cases and no \<^verbatim>\<open>default\<close>: the send of
  the job, the queue's \<^verbatim>\<open>ctx.Done()\<close> and the caller's \<^verbatim>\<open>ctx.Done()\<close>.
\<close>

datatype pcase = SendJob | QueueDone | CallerDone

definition Process_enqueue_ready ::
  "ctx_env \<Rightarrow> ('d, 'r) Queue \<Rightarrow> ctx \<Rightarrow> 'd \<Rightarrow> nat \<Rightarrow> pcase list" where
  "Process_enqueue_ready env q c d resultChan =
     (if chan_send (q_queue q) \<lparr>job_data = d, job_result = resultChan, job_context = c\<rparr> \<noteq> Blocks
        then [SendJob] else [])
     @ (if env (q_ctx q) \<noteq> None then [QueueDone] else [])
     @ (if env c \<noteq> None then [CallerDone] else [])"

datatype ('d, 'r) enqueued = Enqueued "('d, 'r) Queue" | Return "'r returned" | Panic | Parked

definition Process_enqueue ::
  "ctx_env \<Rightarrow> ('d, 'r) Queue \<Rightarrow> ctx \<Rightarrow> 'd \<Rightarrow> nat \<Rightarrow> pcase \<Rightarrow> ('d, 'r) enqueued" where
  "Process_enqueue env q c d resultChan k =
     (if k \<notin> set (Process_enqueue_ready env q c d resultChan) then Parked
      else case k of
        SendJob \<Rightarrow>
          (case chan_send (q_queue q) \<lparr>job_data = d, job_result = resultChan, job_context = c\<rparr> of
             Proceeds ch \<Rightarrow> Enqueued (q\<lparr>q_queue := ch\<rparr>)
           | Panics \<Rightarrow> Panic
           | Blocks \<Rightarrow> Parked)
      | QueueDone \<Rightarrow> Return (None, Some shutdown_error)
      | CallerDone \<Rightarrow> Return (None, map_option ContextError (env c)))"

text \<open>
  The second \<^verbatim>\<open>select\<close> (lines 97 to 108): the receive from the result channel and the
  caller's \<^verbatim>\<open>ctx.Done()\<close>. \<open>None\<close> is returned while the call is parked.
\<close>

datatype acase = RecvResult | AwaitCallerDone

definition recv_on :: "'r heap \<Rightarrow> nat \<Rightarrow> ('r jobResult option \<times> 'r heap) attempt" where
  "recv_on hp r =
     (if r < length hp then
        (case chan_recv (hp ! r) of
           Proceeds (v, c) \<Rightarrow> Proceeds (v, hp[r := c])
         | Panics \<Rightarrow> Panics
         | Blocks \<Rightarrow> Blocks)
      else Blocks)"

definition Process_await_ready :: "ctx_env \<Rightarrow> 'r heap \<Rightarrow> nat \<Rightarrow> ctx \<Rightarrow> acase list" where
  "Process_await_ready env hp resultChan c =
     (if recv_on hp resultChan \<noteq> Blocks then [RecvResult] else [])
     @ (if env c \<noteq> None then [AwaitCallerDone] else [])"

definition Process_await ::
  "ctx_env \<Rightarrow> 'r heap \<Rightarrow> nat \<Rightarrow> ctx \<Rightarrow> acase \<Rightarrow> ('r returned \<times> 'r heap) option" where
  "Process_await env hp resultChan c k =
     (if k \<notin> set (Process_await_ready env hp resultChan c) then None
      else case k of
        RecvResult \<Rightarrow>
          (case recv_on hp resultChan of
             Proceeds (Some (JobResult result err), hp') \<Rightarrow>
               (if err \<noteq> None then Some ((None, err), hp') else Some ((result, None), hp'))
           | Proceeds (None, hp') \<Rightarrow> Some ((None, None), hp')
           | Panics \<Rightarrow> None
           | Blocks \<Rightarrow> None)
      | AwaitCallerDone \<Rightarrow> Some ((None, map_option ContextError (env c)), hp))"

subsection \<open>The queue as a transition system\<close>

text \<open>
  The states the queue, the heap of result channels and the callers can reach: the
  queue made by \<^verbatim>\<open>New\<close>; a call of \<^verbatim>\<open>Process\<close> making its result channel (the reference
  is pending until the call has enqueued its job or returned); the first \<^verbatim>\<open>select\<close> of
  such a call; an iteration of a worker; the second \<^verbatim>\<open>select\<close> of a call, on any
  reference; and \<^verbatim>\<open>Run\<close> closing the intake channel. The environment of every step is
  arbitrary: contexts are cancelled at any time. An iteration of a worker is one step:
  while the handler runs nothing else sends on the job's result channel, and the
  caller's receive is not ready before the worker's send.
\<close>

inductive reachable :: "('d, 'r) Queue \<Rightarrow> 'r heap \<Rightarrow> nat set \<Rightarrow> bool" where
  made: "New c n h = Proceeds q \<Longrightarrow> reachable q [] {}"
| begun: "reachable q hp pend \<Longrightarrow> Process_begin env q hp = Inr (resultChan, hp')
     \<Longrightarrow> reachable q hp' (insert resultChan pend)"
| enqueued: "reachable q hp pend \<Longrightarrow> resultChan \<in> pend
     \<Longrightarrow> Process_enqueue env q c d resultChan k = Enqueued q'
     \<Longrightarrow> reachable q' hp (pend - {resultChan})"
| returned: "reachable q hp pend \<Longrightarrow> resultChan \<in> pend
     \<Longrightarrow> Process_enqueue env q c d resultChan k = Return r
     \<Longrightarrow> reachable q hp (pend - {resultChan})"
| worked: "reachable q hp pend \<Longrightarrow> worker_iter env q hp k = (acts, q', hp', nxt)
     \<Longrightarrow> reachable q' hp' pend"
| awaited: "reachable q hp pend \<Longrightarrow> Process_await env hp resultChan c k = Some (r, hp')
     \<Longrightarrow> reachable q hp' pend"
| closed: "reachable q hp pend \<Longrightarrow> Run env q = Proceeds q' \<Longrightarrow> reachable q' hp pend"

code_pred reachable .

text \<open>
  The invariant of these states: the jobs in the intake channel and the pending calls
  hold pairwise different result channels, each of them empty, open and of capacity 1;
  every result channel of the heap is open and of capacity 1.
\<close>

definition fresh_chan :: "'r heap \<Rightarrow> nat \<Rightarrow> bool" where
  "fresh_chan hp r = (r < length hp \<and> hp ! r = make_chan 1)"

definition queue_inv :: "('d, 'r) Queue \<Rightarrow> 'r heap \<Rightarrow> nat set \<Rightarrow> bool" where
  "queue_inv q hp pend =
     (distinct (map job_result (buf (q_queue q)))
      \<and> (\<forall>j \<in> set (buf (q_queue q)). job_result j \<notin> pend \<and> fresh_chan hp (job_result j))
      \<and> (\<forall>r \<in> pend. fresh_chan hp r)
      \<and> (\<forall>r < length hp. cap (hp ! r) = 1 \<and> \<not> is_closed (hp ! r)))"

text \<open>
  The Go runtime counts, for every goroutine, its calls of \<^verbatim>\<open>LockOSThread\<close> that no
  \<^verbatim>\<open>UnlockOSThread\<close> has undone, and keeps the goroutine on its thread while the count is
  positive. \<open>lock_count n as\<close> is the count after the actions \<open>as\<close>, starting from \<open>n\<close>.
\<close>

fun lock_count :: "nat \<Rightarrow> ('d, 'r) action list \<Rightarrow> nat" where
  "lock_count n [] = n"
| "lock_count n (LockOSThread # as) = lock_count (n + 1) as"
| "lock_count n (UnlockOSThread # as) = lock_count (n - 1) as"
| "lock_count n (Receive j # as) = lock_count n as"
| "lock_count n (CallHandler c d # as) = lock_count n as"
| "lock_count n (SendResult r v # as) = lock_count n as"

section \<open>The coalescing handler (package imageapi)\<close>

text \<open>
  Modelled from the spec: the constructors of \<^verbatim>\<open>handler.Error\<close> are not among the sources;
  they are named as \<^verbatim>\<open>image.go\<close> calls them, with the status codes of the spec.
\<close>

datatype herror = InternalServerError | BadRequest string | ServiceUnavailable

fun herror_code :: "herror \<Rightarrow> int" where
  "herror_code InternalServerError = 500"
| "herror_code (BadRequest m) = 400"
| "herror_code ServiceUnavailable = 503"

text \<open>
  The state the handler goroutines share: the result cache (what \<^verbatim>\<open>Get\<close> finds now;
  expiry and eviction remove entries between the steps of a request), the in-flight map
  from cache keys to completion channels, the completion channels themselves, and the
  five counters. \<open>ops\<close> records the operations on the in-flight map and on the
  completion channels in the order they happen.
\<close>

datatype inflight_op = LoadOrStore string nat bool | Delete string | Close nat

record API =
  imageCache :: "string \<rightharpoonup> bytes"
  inflight :: "string \<rightharpoonup> nat"
  dones :: "unit chan list"
  cacheHits :: int
  cacheMisses :: int
  requestsCoalesced :: int
  requestsProcessed :: int
  queueFullErrors :: int
  ops :: "inflight_op list"

definition NewAPI :: API where
  "NewAPI = \<lparr>imageCache = Map.empty, inflight = Map.empty, dones = [],
             cacheHits = 0, cacheMisses = 0, requestsCoalesced = 0, requestsProcessed = 0,
             queueFullErrors = 0, ops = []\<rparr>"

text \<open>
  Where a request stands: it has returned (\<open>None\<close> is the \<^verbatim>\<open>nil\<close> returned after
  \<^verbatim>\<open>sendImage\<close>), it waits on the completion channel it loaded, it is about to process
  the image (with the value of \<^verbatim>\<open>loaded\<close> and its own channel \<^verbatim>\<open>done\<close>), or it is
  unwinding from a panic.
\<close>

datatype hnext = Done "herror option" | Waiting nat nat | Producing bool nat | Unwinding

text \<open>Lines 28 to 41: the signature check and the parameters, both computed outside.\<close>

definition imageHandler_validate ::
  "bool \<times> error option \<Rightarrow> string + Params \<Rightarrow> herror + Params" where
  "imageHandler_validate hm gp =
     (case hm of (valid, err) \<Rightarrow>
        if err \<noteq> None then Inl InternalServerError
        else if \<not> valid then Inl (BadRequest ''Invalid parameters'')
        else case gp of Inl msg \<Rightarrow> Inl (BadRequest msg) | Inr p \<Rightarrow> Inr p)"

text \<open>Lines 48 to 69: the cache lookup, the fresh channel and \<^verbatim>\<open>LoadOrStore\<close>.\<close>

definition imageHandler_lookup ::
  "API \<Rightarrow> ResponseWriter \<Rightarrow> string \<Rightarrow> Params \<Rightarrow> API \<times> ResponseWriter \<times> hnext" where
  "imageHandler_lookup a w imageID p =
     (let cacheKey = buildCacheKey imageID p
      in case imageCache a cacheKey of
           Some cachedImage \<Rightarrow>
             (a\<lparr>cacheHits := cacheHits a + 1\<rparr>, sendImage w imageID p cachedImage, Done None)
         | None \<Rightarrow>
             (let a = a\<lparr>cacheMisses := cacheMisses a + 1\<rparr>;
                  doneCh = length (dones a);
                  a = a\<lparr>dones := dones a @ [make_chan 0]\<rparr>
              in case inflight a cacheKey of
                   Some existing \<Rightarrow>
                     (a\<lparr>ops := ops a @ [LoadOrStore cacheKey doneCh True],
                        requestsCoalesced := requestsCoalesced a + 1\<rparr>,
                      w, Waiting existing doneCh)
                 | None \<Rightarrow>
                     (a\<lparr>inflight := (inflight a)(cacheKey \<mapsto> doneCh),
                        ops := ops a @ [LoadOrStore cacheKey doneCh False]\<rparr>,
                      w, Producing False doneCh)))"

text \<open>
  Lines 70 to 81: the waiter's \<^verbatim>\<open>select\<close> on the loaded channel, ready once it is closed,
  and on the request's \<^verbatim>\<open>ctx.Done()\<close>.
\<close>

datatype hcase = ExistingDone | RequestDone

definition imageHandler_wait_ready :: "ctx_env \<Rightarrow> API \<Rightarrow> nat \<Rightarrow> ctx \<Rightarrow> hcase list" where
  "imageHandler_wait_ready env a existing c =
     (if existing < length (dones a) \<and> chan_recv (dones a ! existing) \<noteq> Blocks
        then [ExistingDone] else [])
     @ (if env c \<noteq> None then [RequestDone] else [])"


text \<open>Line 85, before the call of the image processor.\<close>

definition imageHandler_process :: "API \<Rightarrow> API" where
  "imageHandler_process a = a\<lparr>requestsProcessed := requestsProcessed a + 1\<rparr>"

text \<open>
  \<^verbatim>\<open>ProcessImage\<close> returns the bytes and an error, or panics. Lines 100 to 119 run after
  it has returned; they are plain statements after the call, not deferred, so a panic
  in the call unwinds past them to \<^verbatim>\<open>Recovery\<close>.
\<close>

datatype outcome = ProcReturns bytes "error option" | ProcPanics

definition inflight_Delete :: "string \<Rightarrow> API \<Rightarrow> API" where
  "inflight_Delete k a = a\<lparr>inflight := (inflight a)(k := None), ops := ops a @ [Delete k]\<rparr>"

definition close_done :: "nat \<Rightarrow> API \<Rightarrow> API attempt" where
  "close_done d a =
     (if d < length (dones a) then
        (case chan_close (dones a ! d) of
           Proceeds c \<Rightarrow> Proceeds (a\<lparr>dones := (dones a)[d := c], ops := ops a @ [Close d]\<rparr>)
         | Panics \<Rightarrow> Panics
         | Blocks \<Rightarrow> Blocks)
      else Panics)"

definition imageHandler_respond ::
  "API \<Rightarrow> ResponseWriter \<Rightarrow> string \<Rightarrow> Params \<Rightarrow> bytes \<Rightarrow> error option
     \<Rightarrow> API \<times> ResponseWriter \<times> hnext" where
  "imageHandler_respond a w imageID p processedImage err =
     (case err of
        Some e \<Rightarrow>
          if is_ErrQueueFull e
            then (a\<lparr>queueFullErrors := queueFullErrors a + 1\<rparr>, w, Done (Some ServiceUnavailable))
          else (a, w, Done (Some InternalServerError))
      | None \<Rightarrow>
          (a\<lparr>imageCache := (imageCache a)(buildCacheKey imageID p \<mapsto> processedImage)\<rparr>,
           sendImage w imageID p processedImage, Done None))"

definition imageHandler_finish ::
  "API \<Rightarrow> ResponseWriter \<Rightarrow> string \<Rightarrow> Params \<Rightarrow> bool \<Rightarrow> nat \<Rightarrow> outcome
     \<Rightarrow> API \<times> ResponseWriter \<times> hnext" where
  "imageHandler_finish a w imageID p loaded doneCh out =
     (case out of
        ProcPanics \<Rightarrow> (a, w, Unwinding)
      | ProcReturns processedImage err \<Rightarrow>
          if \<not> loaded then
            (case close_done doneCh (inflight_Delete (buildCacheKey imageID p) a) of
               Proceeds a' \<Rightarrow> imageHandler_respond a' w imageID p processedImage err
             | Panics \<Rightarrow> (inflight_Delete (buildCacheKey imageID p) a, w, Unwinding)
             | Blocks \<Rightarrow> (inflight_Delete (buildCacheKey imageID p) a, w, Unwinding))
          else imageHandler_respond a w imageID p processedImage err)"

section \<open>Concrete runs\<close>

text \<open>
  The inputs at which the theorems below are evaluated: context 0 is the queue's parent
  context and context 1 a caller's; the handler returns its payload.
\<close>

definition env_live :: ctx_env where
  "env_live c = None"

definition env_shutdown :: ctx_env where
  "env_shutdown c = (if c = 0 then Some Canceled else None)"

definition env_caller_gone :: ctx_env where
  "env_caller_gone c = (if c = 1 then Some DeadlineExceeded else None)"

definition echo_handler :: "(nat, nat) handler" where
  "echo_handler c d = (Some d, None)"

definition job_of :: "nat \<Rightarrow> nat job" where
  "job_of i = \<lparr>job_data = i, job_result = i, job_context = 1\<rparr>"

text \<open>A queue of one worker: as made by \<^verbatim>\<open>New\<close>, with one job enqueued, and closed by \<^verbatim>\<open>Run\<close>.\<close>

definition q_one :: "(nat, nat) Queue" where
  "q_one = \<lparr>q_workers = 1, q_queue = \<lparr>cap = 4, buf = [], is_closed = False\<rparr>,
            q_handler = echo_handler, q_ctx = 0\<rparr>"

definition q_one_pending :: "(nat, nat) Queue" where
  "q_one_pending = \<lparr>q_workers = 1, q_queue = \<lparr>cap = 4, buf = [job_of 0], is_closed = False\<rparr>,
                    q_handler = echo_handler, q_ctx = 0\<rparr>"

definition q_one_closed :: "(nat, nat) Queue" where
  "q_one_closed = \<lparr>q_workers = 1, q_queue = \<lparr>cap = 4, buf = [job_of 0], is_closed = True\<rparr>,
                   q_handler = echo_handler, q_ctx = 0\<rparr>"

text \<open>
  A queue of three workers, and the same queue after twelve submissions that no worker
  has taken up (the workers are busy): its buffer of twelve is full.
\<close>

definition q_three :: "(nat, nat) Queue" where
  "q_three = \<lparr>q_workers = 3, q_queue = \<lparr>cap = 12, buf = [], is_closed = False\<rparr>,
              q_handler = echo_handler, q_ctx = 0\<rparr>"

definition submit :: "(nat, nat) Queue \<times> nat heap \<Rightarrow> nat \<Rightarrow> (nat, nat) Queue \<times> nat heap" where
  "submit s d =
     (case Process_begin env_live (fst s) (snd s) of
        Inl r \<Rightarrow> s
      | Inr (resultChan, hp) \<Rightarrow>
          (case Process_enqueue env_live (fst s) 1 d resultChan SendJob of
             Enqueued q \<Rightarrow> (q, hp)
           | Return r \<Rightarrow> s
           | Panic \<Rightarrow> s
           | Parked \<Rightarrow> s))"

definition q_full :: "(nat, nat) Queue" where
  "q_full = \<lparr>q_workers = 3,
             q_queue = \<lparr>cap = 12,
                        buf = [job_of 0, job_of 1, job_of 2, job_of 3, job_of 4, job_of 5,
                               job_of 6, job_of 7, job_of 8, job_of 9, job_of 10, job_of 11],
                        is_closed = False\<rparr>,
             q_handler = echo_handler, q_ctx = 0\<rparr>"

definition hp_full :: "nat heap" where
  "hp_full = replicate 12 (make_chan 1)"

text \<open>A request for image 7 at 200 by 200 as \<^verbatim>\<open>.webp\<close> with blur 3, and some image bytes.\<close>

definition p_blur :: Params where
  "p_blur = \<lparr>Width = 200, Height = 200, Blur = True, BlurAmount = 3,
             Grayscale = False, Extension = ''.webp''\<rparr>"

definition some_image :: bytes where
  "some_image = [255, 216, 255]"

text \<open>
  The state after the first request for it has stored its completion channel in the
  in-flight map and counted itself as processed, and the state of the next request for
  the same key after its \<^verbatim>\<open>LoadOrStore\<close>.
\<close>

definition api_claimed :: API where
  "api_claimed = \<lparr>imageCache = Map.empty, inflight = [''7-200x200.webp-blur_3'' \<mapsto> 0],
                  dones = [make_chan 0],
                  cacheHits = 0, cacheMisses = 1, requestsCoalesced = 0, requestsProcessed = 1,
                  queueFullErrors = 0, ops = [LoadOrStore ''7-200x200.webp-blur_3'' 0 False]\<rparr>"

definition api_second :: API where
  "api_second = \<lparr>imageCache = Map.empty, inflight = [''7-200x200.webp-blur_3'' \<mapsto> 0],
                 dones = [make_chan 0, make_chan 0],
                 cacheHits = 0, cacheMisses = 2, requestsCoalesced = 1, requestsProcessed = 1,
                 queueFullErrors = 0,
                 ops = [LoadOrStore ''7-200x200.webp-blur_3'' 0 False,
                        LoadOrStore ''7-200x200.webp-blur_3'' 1 True]\<rparr>"



section \<open>Properties of the fingerprint and of the file name\<close>

subsection \<open>Decimal strings\<close>

lemma digit_nth: "d < 10 \<Longrightarrow> is_digit (digits ! d)"
  unfolding is_digit_def digits_def by (simp add: nth_Cons')

lemma digit_inj: "d < 10 \<Longrightarrow> e < 10 \<Longrightarrow> digits ! d = digits ! e \<Longrightarrow> d = e"
proof -
  have "distinct digits" by (simp add: digits_def)
  moreover have "length digits = 10" by (simp add: digits_def)
  ultimately show "d < 10 \<Longrightarrow> e < 10 \<Longrightarrow> digits ! d = digits ! e \<Longrightarrow> d = e"
    by (simp add: nth_eq_iff_index_eq)
qed

lemma utoa_all_digits: "list_all is_digit (utoa n)"
proof (induction n rule: utoa.induct)
  case (1 n)
  show ?case
  proof (cases "n < 10")
    case True
    then show ?thesis by (simp add: utoa.simps [of n] digit_nth)
  next
    case False
    with 1 show ?thesis by (simp add: utoa.simps [of n] digit_nth)
  qed
qed

lemma utoa_nonempty: "utoa n \<noteq> []"
  by (subst utoa.simps) simp

lemma utoa_last: "last (utoa n) = digits ! (n mod 10)"
  by (subst utoa.simps) simp

lemma utoa_butlast: "10 \<le> n \<Longrightarrow> butlast (utoa n) = utoa (n div 10)"
  by (subst utoa.simps) simp

lemma utoa_length1: "length (utoa n) = 1 \<longleftrightarrow> n < 10"
  by (subst utoa.simps) (simp add: utoa_nonempty)

lemma utoa_inj: "utoa n = utoa m \<Longrightarrow> n = m"
proof (induction n arbitrary: m rule: utoa.induct)
  case (1 n)
  have l: "digits ! (n mod 10) = digits ! (m mod 10)"
    using "1.prems" utoa_last by metis
  then have md: "n mod 10 = m mod 10"
    by (intro digit_inj) simp_all
  have "(n < 10) = (m < 10)"
    using "1.prems" utoa_length1 by metis
  show ?case
  proof (cases "n < 10")
    case True
    with \<open>(n < 10) = (m < 10)\<close> md show ?thesis by simp
  next
    case False
    with \<open>(n < 10) = (m < 10)\<close> have "\<not> m < 10" by simp
    have "utoa (n div 10) = utoa (m div 10)"
      using "1.prems" False \<open>\<not> m < 10\<close> utoa_butlast [of n] utoa_butlast [of m] by simp
    with "1.IH" False have "n div 10 = m div 10" by simp
    with md show ?thesis by (metis div_mult_mod_eq)
  qed
qed

lemma digit_suffix_unique:
  assumes "list_all is_digit ds1" "list_all is_digit ds2" "\<not> is_digit c1" "\<not> is_digit c2"
    and eq: "r1 @ c1 # ds1 = r2 @ c2 # ds2"
  shows "r1 = r2 \<and> c1 = c2 \<and> ds1 = ds2"
proof -
  have t: "takeWhile is_digit (rev ds @ c # rev r) = rev ds"
    if "list_all is_digit ds" "\<not> is_digit c" for ds c r
  proof -
    have "\<And>x. x \<in> set (rev ds) \<Longrightarrow> is_digit x"
      using that(1) by (simp add: list_all_iff)
    then have "takeWhile is_digit (rev ds @ c # rev r) = rev ds @ takeWhile is_digit (c # rev r)"
      by (rule takeWhile_append2)
    with that(2) show ?thesis by simp
  qed
  have "rev (r1 @ c1 # ds1) = rev (r2 @ c2 # ds2)" using eq by simp
  then have e: "rev ds1 @ c1 # rev r1 = rev ds2 @ c2 # rev r2" by simp
  then have "takeWhile is_digit (rev ds1 @ c1 # rev r1) = takeWhile is_digit (rev ds2 @ c2 # rev r2)"
    by simp
  then have "rev ds1 = rev ds2" using assms t by simp
  then have "ds1 = ds2" by simp
  with eq show ?thesis by simp
qed


lemma utoa_last_digit: "is_digit (last (utoa n))"
  by (simp add: utoa_last digit_nth)

lemma not_digit_chars:
  "\<not> is_digit CHR ''e''" "\<not> is_digit CHR ''g''" "\<not> is_digit CHR ''p''"
  "\<not> is_digit CHR ''_''" "\<not> is_digit CHR ''x''" "\<not> is_digit CHR ''-''"
  by (simp_all add: is_digit_def digits_def)

lemma ext_last: "e = ''.jpg'' \<or> e = ''.webp'' \<Longrightarrow> last (y @ e) = last e \<and> \<not> is_digit (last e) \<and> last e \<noteq> CHR ''e''"
  by (auto simp: not_digit_chars)

lemma last_blur:
  assumes "e = ''.jpg'' \<or> e = ''.webp''"
  shows "is_digit (last (y @ e @ blur_suffix b n)) = b"
    and "last (y @ e @ blur_suffix b n) \<noteq> CHR ''e''"
proof -
  show "is_digit (last (y @ e @ blur_suffix b n)) = b"
  proof (cases b)
    case True
    then have "last (y @ e @ blur_suffix b n) = last (utoa n)"
      by (simp add: blur_suffix_def utoa_nonempty)
    with True show ?thesis by (simp add: utoa_last_digit)
  next
    case False
    then show ?thesis using ext_last [OF assms, of y] by (simp add: blur_suffix_def)
  qed
  show "last (y @ e @ blur_suffix b n) \<noteq> CHR ''e''"
  proof (cases b)
    case True
    then have "last (y @ e @ blur_suffix b n) = last (utoa n)"
      by (simp add: blur_suffix_def utoa_nonempty)
    then show ?thesis using utoa_last_digit [of n] not_digit_chars(1) by metis
  next
    case False
    then show ?thesis using ext_last [OF assms, of y] by (simp add: blur_suffix_def)
  qed
qed

lemma last_gray:
  assumes "e = ''.jpg'' \<or> e = ''.webp''"
  shows "(last (y @ e @ blur_suffix b n @ gray_suffix g) = CHR ''e'') = g"
proof (cases g)
  case True
  then show ?thesis by (simp add: gray_suffix_def)
next
  case False
  then show ?thesis using last_blur(2) [OF assms, of y b n] by (simp add: gray_suffix_def)
qed

lemma fingerprint_shape_inj:
  assumes e1: "e1 = ''.jpg'' \<or> e1 = ''.webp''" and e2: "e2 = ''.jpg'' \<or> e2 = ''.webp''"
    and eq: "i1 @ ''-'' @ utoa w1 @ ''x'' @ utoa h1 @ e1 @ blur_suffix b1 n1 @ gray_suffix g1
           = i2 @ ''-'' @ utoa w2 @ ''x'' @ utoa h2 @ e2 @ blur_suffix b2 n2 @ gray_suffix g2"
  shows "i1 = i2 \<and> w1 = w2 \<and> h1 = h2 \<and> e1 = e2 \<and> b1 = b2 \<and> (b1 \<longrightarrow> n1 = n2) \<and> g1 = g2"
proof -
  define y1 where "y1 = i1 @ ''-'' @ utoa w1 @ ''x'' @ utoa h1"
  define y2 where "y2 = i2 @ ''-'' @ utoa w2 @ ''x'' @ utoa h2"
  have k: "y1 @ e1 @ blur_suffix b1 n1 @ gray_suffix g1 = y2 @ e2 @ blur_suffix b2 n2 @ gray_suffix g2"
    using eq by (simp add: y1_def y2_def)
  have g: "g1 = g2"
    using last_gray [OF e1, of y1 b1 n1 g1] last_gray [OF e2, of y2 b2 n2 g2] k by simp
  with k have k2: "y1 @ e1 @ blur_suffix b1 n1 = y2 @ e2 @ blur_suffix b2 n2"
    by (simp flip: append_assoc)
  have b: "b1 = b2"
    using last_blur(1) [OF e1, of y1 b1 n1] last_blur(1) [OF e2, of y2 b2 n2] k2 by simp
  have k3: "y1 @ e1 = y2 @ e2 \<and> (b1 \<longrightarrow> n1 = n2)"
  proof (cases b1)
    case True
    with b k2 have "(y1 @ e1 @ ''-blur'') @ CHR ''_'' # utoa n1 = (y2 @ e2 @ ''-blur'') @ CHR ''_'' # utoa n2"
      by (simp add: blur_suffix_def)
    then have "y1 @ e1 @ ''-blur'' = y2 @ e2 @ ''-blur'' \<and> utoa n1 = utoa n2"
      using digit_suffix_unique [OF utoa_all_digits utoa_all_digits not_digit_chars(4) not_digit_chars(4)]
      by blast
    then have "(y1 @ e1) @ ''-blur'' = (y2 @ e2) @ ''-blur''" and "n1 = n2"
      by (simp_all add: utoa_inj)
    then show ?thesis by simp
  next
    case False
    with b k2 show ?thesis by (simp add: blur_suffix_def)
  qed
  have e: "e1 = e2"
  proof -
    from k3 have "last (y1 @ e1) = last (y2 @ e2)" by simp
    with e1 e2 show ?thesis by auto
  qed
  with k3 have "y1 = y2" by simp
  then have "(i1 @ ''-'' @ utoa w1) @ CHR ''x'' # utoa h1 = (i2 @ ''-'' @ utoa w2) @ CHR ''x'' # utoa h2"
    by (simp add: y1_def y2_def)
  then have "i1 @ ''-'' @ utoa w1 = i2 @ ''-'' @ utoa w2 \<and> utoa h1 = utoa h2"
    using digit_suffix_unique [OF utoa_all_digits utoa_all_digits not_digit_chars(5) not_digit_chars(5)]
    by blast
  then have h: "h1 = h2" and "i1 @ CHR ''-'' # utoa w1 = i2 @ CHR ''-'' # utoa w2"
    by (simp_all add: utoa_inj)
  then have "i1 = i2 \<and> utoa w1 = utoa w2"
    using digit_suffix_unique [OF utoa_all_digits utoa_all_digits not_digit_chars(6) not_digit_chars(6)]
    by blast
  then have "i1 = i2" "w1 = w2" by (simp_all add: utoa_inj)
  with h e b g k3 show ?thesis by simp
qed

lemma itoa_nonneg: "0 \<le> i \<Longrightarrow> itoa i = utoa (nat i)"
  by (simp add: itoa_def)

lemma itoa_examples:
  "itoa 5000 = ''5000''" "itoa 1 = ''1''" "itoa 10 = ''10''" "itoa 0 = ''0''" "itoa (- 42) = ''-42''"
  by (simp_all add: itoa_def utoa.simps digits_def)

subsection \<open>The cache key\<close>

lemma buildCacheKey_shape:
  "buildCacheKey imageID p =
     imageID @ ''-'' @ itoa (Width p) @ ''x'' @ itoa (Height p) @ Extension p
       @ (if Blur p then ''-blur_'' @ itoa (BlurAmount p) else [])
       @ (if Grayscale p then ''-grayscale'' else [])"
  by (simp add: buildCacheKey_def Let_def)

lemma buildFilename_shape:
  "buildFilename imageID p =
     imageID @ ''-'' @ itoa (Width p) @ ''x'' @ itoa (Height p)
       @ (if Blur p then ''-blur_'' @ itoa (BlurAmount p) else [])
       @ (if Grayscale p then ''-grayscale'' else [])
       @ Extension p"
  by (simp add: buildFilename_def Let_def)

lemma buildCacheKey_inj:
  assumes "in_param_space id1 p1" and "in_param_space id2 p2"
    and "buildCacheKey id1 p1 = buildCacheKey id2 p2"
  shows "same_parameters id1 p1 id2 p2"
proof -
  have s: "buildCacheKey i p = i @ ''-'' @ utoa (nat (Width p)) @ ''x'' @ utoa (nat (Height p))
      @ Extension p @ blur_suffix (Blur p) (nat (BlurAmount p)) @ gray_suffix (Grayscale p)"
    if "in_param_space i p" for i p
    using that
    by (auto simp: buildCacheKey_shape in_param_space_def itoa_nonneg blur_suffix_def gray_suffix_def)
  have e1: "Extension p1 = ''.jpg'' \<or> Extension p1 = ''.webp''"
    using assms(1) by (simp add: in_param_space_def)
  have e2: "Extension p2 = ''.jpg'' \<or> Extension p2 = ''.webp''"
    using assms(2) by (simp add: in_param_space_def)
  have "id1 @ ''-'' @ utoa (nat (Width p1)) @ ''x'' @ utoa (nat (Height p1))
      @ Extension p1 @ blur_suffix (Blur p1) (nat (BlurAmount p1)) @ gray_suffix (Grayscale p1)
    = id2 @ ''-'' @ utoa (nat (Width p2)) @ ''x'' @ utoa (nat (Height p2))
      @ Extension p2 @ blur_suffix (Blur p2) (nat (BlurAmount p2)) @ gray_suffix (Grayscale p2)"
    using assms(3) s [OF assms(1)] s [OF assms(2)] by simp
  from fingerprint_shape_inj [OF e1 e2 this]
  have r: "id1 = id2 \<and> nat (Width p1) = nat (Width p2) \<and> nat (Height p1) = nat (Height p2)
     \<and> Extension p1 = Extension p2 \<and> Blur p1 = Blur p2
     \<and> (Blur p1 \<longrightarrow> nat (BlurAmount p1) = nat (BlurAmount p2)) \<and> Grayscale p1 = Grayscale p2" .
  have pos: "0 < Width p1" "0 < Width p2" "0 < Height p1" "0 < Height p2"
    using assms(1,2) by (simp_all add: in_param_space_def)
  have bl: "Blur p1 \<Longrightarrow> 0 < BlurAmount p1" "Blur p2 \<Longrightarrow> 0 < BlurAmount p2"
    using assms(1,2) by (simp_all add: in_param_space_def)
  from r pos have "Width p1 = Width p2" by linarith
  moreover from r pos have "Height p1 = Height p2" by linarith
  moreover have "Blur p1 \<longrightarrow> BlurAmount p1 = BlurAmount p2"
  proof
    assume "Blur p1"
    with r bl have "0 < BlurAmount p1" "0 < BlurAmount p2" "nat (BlurAmount p1) = nat (BlurAmount p2)"
      by simp_all
    then show "BlurAmount p1 = BlurAmount p2" by linarith
  qed
  ultimately show ?thesis using r by (simp add: same_parameters_def)
qed

lemma same_parameters_key:
  "same_parameters id1 p1 id2 p2 \<Longrightarrow> buildCacheKey id1 p1 = buildCacheKey id2 p2"
  by (auto simp: same_parameters_def buildCacheKey_shape)

text \<open>
  C4: over the parameter space (non-empty id, dimensions from 1 to 5000, extension
  \<^verbatim>\<open>.jpg\<close> or \<^verbatim>\<open>.webp\<close>, blur amount from 1 to 10 when blur is set), the cache key is
  \<^verbatim>\<open>{id}-{width}x{height}{extension}[-blur_{n}][-grayscale]\<close> with the numbers in decimal,
  and two parameter vectors have the same key exactly when they are the same vector:
  different vectors get different fingerprints. In particular two \<^verbatim>\<open>Params\<close> structs with
  the same key are equal field by field, the blur amount of a request without blur
  apart, which is no part of its parameters.
\<close>

theorem C4_fingerprint_injective:
  assumes "in_param_space id1 p1" and "in_param_space id2 p2"
  shows "buildCacheKey id1 p1 =
           id1 @ ''-'' @ itoa (Width p1) @ ''x'' @ itoa (Height p1) @ Extension p1
             @ (if Blur p1 then ''-blur_'' @ itoa (BlurAmount p1) else [])
             @ (if Grayscale p1 then ''-grayscale'' else [])
         \<and> (buildCacheKey id1 p1 = buildCacheKey id2 p2 \<longleftrightarrow> same_parameters id1 p1 id2 p2)
         \<and> (buildCacheKey id1 p1 = buildCacheKey id2 p2
              \<and> (Blur p1 \<or> BlurAmount p1 = BlurAmount p2)
              \<longrightarrow> id1 = id2 \<and> p1 = p2)"
proof -
  have "id1 = id2 \<and> p1 = p2"
    if "buildCacheKey id1 p1 = buildCacheKey id2 p2" "Blur p1 \<or> BlurAmount p1 = BlurAmount p2"
  proof -
    from buildCacheKey_inj [OF assms that(1)] that(2)
    have "id1 = id2" "Width p1 = Width p2" "Height p1 = Height p2" "Extension p1 = Extension p2"
      "Blur p1 = Blur p2" "BlurAmount p1 = BlurAmount p2" "Grayscale p1 = Grayscale p2"
      by (auto simp: same_parameters_def)
    then show ?thesis by simp
  qed
  then show ?thesis
    using buildCacheKey_shape [of id1 p1] buildCacheKey_inj [OF assms]
      same_parameters_key [of id1 p1 id2 p2]
    by blast
qed

theorem C4_fingerprint_injective_witness:
  "in_param_space ''7'' \<lparr>Width = 200, Height = 200, Blur = True, BlurAmount = 3,
                          Grayscale = False, Extension = ''.webp''\<rparr>
   \<and> in_param_space ''7'' \<lparr>Width = 200, Height = 200, Blur = True, BlurAmount = 10,
                            Grayscale = True, Extension = ''.webp''\<rparr>
   \<and> buildCacheKey ''7'' \<lparr>Width = 200, Height = 200, Blur = True, BlurAmount = 3,
                           Grayscale = False, Extension = ''.webp''\<rparr> = ''7-200x200.webp-blur_3''
   \<and> buildCacheKey ''7'' \<lparr>Width = 200, Height = 200, Blur = True, BlurAmount = 3,
                           Grayscale = False, Extension = ''.webp''\<rparr>
     \<noteq> buildCacheKey ''7'' \<lparr>Width = 200, Height = 200, Blur = True, BlurAmount = 10,
                             Grayscale = True, Extension = ''.webp''\<rparr>"
  using C4_fingerprint_injective [of "''7''"
      "\<lparr>Width = 200, Height = 200, Blur = True, BlurAmount = 3,
        Grayscale = False, Extension = ''.webp''\<rparr>"
      "''7''"
      "\<lparr>Width = 200, Height = 200, Blur = True, BlurAmount = 10,
        Grayscale = True, Extension = ''.webp''\<rparr>"]
  by (simp add: in_param_space_def same_parameters_def buildCacheKey_shape
      itoa_def utoa.simps digits_def)

subsection \<open>The file name of the response\<close>

lemma filename_eq_key:
  assumes "Extension p = ''.jpg'' \<or> Extension p = ''.webp''"
  shows "buildFilename imageID p = buildCacheKey imageID p \<longleftrightarrow> \<not> Blur p \<and> \<not> Grayscale p"
  using assms by (auto simp: buildFilename_shape buildCacheKey_shape)

lemma sendImage_disposition:
  "Header (sendImage w imageID p img) ''Content-Disposition''
     = Some (''inline; filename='' @ quote @ buildFilename imageID p @ quote)"
  by (simp add: sendImage_def Let_def Header_Set_def Write_def)

lemma sendImage_status: "status w = None \<Longrightarrow> status (sendImage w imageID p img) = Some 200"
  by (simp add: sendImage_def Let_def Header_Set_def Write_def)



text \<open>
  C5 (the file name of \<^verbatim>\<open>Content-Disposition\<close> is the fingerprint, for every parameter
  vector) fails: for a request with blur or grayscale the file name is not the
  fingerprint. For id 7, 200 by 200, \<^verbatim>\<open>.webp\<close>, blur 3 the header names
  \<^verbatim>\<open>7-200x200-blur_3.webp\<close> and the cache key is \<^verbatim>\<open>7-200x200.webp-blur_3\<close>.
\<close>

theorem C5_filename_is_fingerprint_counterexample:
  "Header (sendImage newResponseWriter ''7''
             \<lparr>Width = 200, Height = 200, Blur = True, BlurAmount = 3,
              Grayscale = False, Extension = ''.webp''\<rparr> [255, 216])
          ''Content-Disposition''
     = Some (''inline; filename='' @ quote @ ''7-200x200-blur_3.webp'' @ quote)
   \<and> buildCacheKey ''7'' \<lparr>Width = 200, Height = 200, Blur = True, BlurAmount = 3,
                           Grayscale = False, Extension = ''.webp''\<rparr> = ''7-200x200.webp-blur_3''
   \<and> Header (sendImage newResponseWriter ''7''
             \<lparr>Width = 200, Height = 200, Blur = True, BlurAmount = 3,
              Grayscale = False, Extension = ''.webp''\<rparr> [255, 216])
          ''Content-Disposition''
     \<noteq> Some (''inline; filename='' @ quote
              @ buildCacheKey ''7'' \<lparr>Width = 200, Height = 200, Blur = True, BlurAmount = 3,
                                     Grayscale = False, Extension = ''.webp''\<rparr> @ quote)"
  by (simp add: sendImage_disposition buildFilename_shape buildCacheKey_shape
      itoa_def utoa.simps digits_def quote_def)

text \<open>
  C5, amended: a response written by \<^verbatim>\<open>sendImage\<close> has status 200 and the header
  \<^verbatim>\<open>Content-Disposition: inline; filename="{name}"\<close>, where the name is
  \<^verbatim>\<open>{id}-{width}x{height}[-blur_{n}][-grayscale]{extension}\<close>: the parts of the
  fingerprint with the extension moved to the end. For the extensions \<^verbatim>\<open>.jpg\<close> and
  \<^verbatim>\<open>.webp\<close> the name equals the fingerprint exactly when neither blur nor grayscale is set.
\<close>

theorem C5_filename_header:
  assumes "Extension p = ''.jpg'' \<or> Extension p = ''.webp''"
  shows "status (sendImage newResponseWriter imageID p img) = Some 200
         \<and> Header (sendImage newResponseWriter imageID p img) ''Content-Disposition''
             = Some (''inline; filename='' @ quote @ buildFilename imageID p @ quote)
         \<and> buildFilename imageID p =
             imageID @ ''-'' @ itoa (Width p) @ ''x'' @ itoa (Height p)
               @ (if Blur p then ''-blur_'' @ itoa (BlurAmount p) else [])
               @ (if Grayscale p then ''-grayscale'' else [])
               @ Extension p
         \<and> (buildFilename imageID p = buildCacheKey imageID p \<longleftrightarrow> \<not> Blur p \<and> \<not> Grayscale p)"
  using filename_eq_key [OF assms, of imageID] buildFilename_shape [of imageID p]
    sendImage_disposition [of newResponseWriter imageID p img]
    sendImage_status [of newResponseWriter imageID p img]
  by (simp add: newResponseWriter_def)

theorem C5_filename_header_witness:
  "(Extension \<lparr>Width = 100, Height = 100, Blur = False, BlurAmount = 0,
                Grayscale = False, Extension = ''.jpg''\<rparr> = ''.jpg''
    \<or> Extension \<lparr>Width = 100, Height = 100, Blur = False, BlurAmount = 0,
                  Grayscale = False, Extension = ''.jpg''\<rparr> = ''.webp'')
   \<and> Header (sendImage newResponseWriter ''123''
               \<lparr>Width = 100, Height = 100, Blur = False, BlurAmount = 0,
                Grayscale = False, Extension = ''.jpg''\<rparr> [255, 216])
        ''Content-Disposition''
       = Some (''inline; filename='' @ quote @ ''123-100x100.jpg'' @ quote)
   \<and> buildFilename ''123'' \<lparr>Width = 100, Height = 100, Blur = False, BlurAmount = 0,
                             Grayscale = False, Extension = ''.jpg''\<rparr>
       = buildCacheKey ''123'' \<lparr>Width = 100, Height = 100, Blur = False, BlurAmount = 0,
                                 Grayscale = False, Extension = ''.jpg''\<rparr>"
  using C5_filename_header [of "\<lparr>Width = 100, Height = 100, Blur = False, BlurAmount = 0,
      Grayscale = False, Extension = ''.jpg''\<rparr>" "''123''" "[255, 216]"]
  by (simp add: buildCacheKey_shape itoa_def utoa.simps digits_def)

subsection \<open>The level of the request log\<close>

text \<open>
  C9: the level of the request log is a function of the status code and of the error of
  the request's context: Info for 503 with \<^verbatim>\<open>context.Canceled\<close>, Error for 503 with
  \<^verbatim>\<open>context.DeadlineExceeded\<close>, Error for every other status of 500 or more (a 503 of a
  live context among them), Debug for every status below 500.
\<close>

theorem C9_logger_severity:
  "fst (Logger 503 (Some Canceled)) = Info
   \<and> fst (Logger 503 (Some DeadlineExceeded)) = Error
   \<and> (500 \<le> c1 \<and> (c1 \<noteq> 503 \<or> (e1 \<noteq> Some Canceled \<and> e1 \<noteq> Some DeadlineExceeded))
        \<longrightarrow> fst (Logger c1 e1) = Error)
   \<and> (c2 < 500 \<longrightarrow> fst (Logger c2 e2) = Debug)"
  by (auto simp: Logger_def StatusServiceUnavailable_def)

theorem C9_logger_severity_witness:
  "(500::int) \<le> 503 \<and> None \<noteq> Some Canceled \<and> None \<noteq> Some DeadlineExceeded
   \<and> fst (Logger 503 None) = Error
   \<and> (404::int) < 500 \<and> fst (Logger 404 (Some Canceled)) = Debug"
  using C9_logger_severity [of 503 None 404 "Some Canceled"]
  by simp

section \<open>Properties of the worker queue\<close>

subsection \<open>Submission to a full queue\<close>

lemma Process_enqueue_never_queue_full:
  "Process_enqueue env q c d rc k \<noteq> Return (None, Some ErrQueueFull)"
  by (cases k; cases "env c")
     (auto simp: Process_enqueue_def shutdown_error_def split: attempt.splits)

text \<open>
  C1: a call of \<^verbatim>\<open>Process\<close> made while the intake buffer is full and no worker is
  receiving should fail with the queue-full error instead of blocking. The code blocks.
  Evaluated on a queue of three workers (capacity twelve) after twelve submissions that
  the busy workers have not taken up, with both contexts live: the thirteenth call passes the
  shutdown check and makes its result channel, then no case of its first \<^verbatim>\<open>select\<close> is
  ready and the call is parked. No case of that \<^verbatim>\<open>select\<close> returns \<^verbatim>\<open>ErrQueueFull\<close>, for any
  queue and any contexts, while the handler of \<^verbatim>\<open>image.go\<close> has the branch that answers
  that error with 503 and counts it.
\<close>

theorem C1_full_queue_parks:
  "New 0 3 echo_handler = Proceeds q_three
   \<and> foldl submit (q_three, []) [0, 1, 2, 3, 4, 5, 6, 7, 8, 9, 10, 11] = (q_full, hp_full)
   \<and> length (buf (q_queue q_full)) = 4 * 3
   \<and> Process_begin env_live q_full hp_full = Inr (12, hp_full @ [make_chan 1])
   \<and> Process_enqueue_ready env_live q_full 1 d 12 = []
   \<and> Process_enqueue env_live q_full 1 d 12 k = Parked
   \<and> Process_enqueue env q c d' rc k' \<noteq> Return (None, Some ErrQueueFull)
   \<and> imageHandler_respond a w imageID p img (Some ErrQueueFull)
       = (a\<lparr>queueFullErrors := queueFullErrors a + 1\<rparr>, w, Done (Some ServiceUnavailable))"
proof -
  have 1: "New 0 3 echo_handler = Proceeds q_three"
    by (simp add: New_def wrap64_def q_three_def make_chan_def)
  have 2: "foldl submit (q_three, []) [0, 1, 2, 3, 4, 5, 6, 7, 8, 9, 10, 11] = (q_full, hp_full)"
    by (simp add: submit_def Process_begin_def Process_enqueue_def Process_enqueue_ready_def
      chan_send_def env_live_def q_three_def q_full_def hp_full_def job_of_def make_chan_def
      numeral_eq_Suc)
  have 3: "length (buf (q_queue q_full)) = 4 * 3"
    by (simp add: q_full_def)
  have 4: "Process_begin env_live q_full hp_full = Inr (12, hp_full @ [make_chan 1])"
    by (simp add: Process_begin_def env_live_def hp_full_def)
  have 5: "Process_enqueue_ready env_live q_full 1 d 12 = []"
    by (simp add: Process_enqueue_ready_def chan_send_def env_live_def q_full_def)
  then have 6: "Process_enqueue env_live q_full 1 d 12 k = Parked"
    by (simp add: Process_enqueue_def)
  have 7: "imageHandler_respond a w imageID p img (Some ErrQueueFull)
       = (a\<lparr>queueFullErrors := queueFullErrors a + 1\<rparr>, w, Done (Some ServiceUnavailable))"
    by (simp add: imageHandler_respond_def)
  show ?thesis
    by (intro conjI 1 2 3 4 5 6 7 Process_enqueue_never_queue_full)
qed

subsection \<open>Reachable states and their invariant\<close>

lemma queue_invI:
  assumes "distinct (map job_result (buf (q_queue q)))"
    and "\<And>j. j \<in> set (buf (q_queue q)) \<Longrightarrow> job_result j \<notin> pend"
    and "\<And>j. j \<in> set (buf (q_queue q)) \<Longrightarrow> fresh_chan hp (job_result j)"
    and "\<And>r. r \<in> pend \<Longrightarrow> fresh_chan hp r"
    and "\<And>r. r < length hp \<Longrightarrow> cap (hp ! r) = 1 \<and> \<not> is_closed (hp ! r)"
  shows "queue_inv q hp pend"
  using assms by (simp add: queue_inv_def)

lemma queue_invD:
  assumes "queue_inv q hp pend"
  shows "distinct (map job_result (buf (q_queue q)))"
    and "\<And>j. j \<in> set (buf (q_queue q)) \<Longrightarrow> job_result j \<notin> pend"
    and "\<And>j. j \<in> set (buf (q_queue q)) \<Longrightarrow> fresh_chan hp (job_result j)"
    and "\<And>r. r \<in> pend \<Longrightarrow> fresh_chan hp r"
    and "\<And>r. r < length hp \<Longrightarrow> cap (hp ! r) = 1 \<and> \<not> is_closed (hp ! r)"
  using assms by (simp_all add: queue_inv_def)

lemma inv_made: "New c n h = Proceeds q \<Longrightarrow> queue_inv q [] {}"
  by (auto simp: New_def Let_def queue_inv_def make_chan_def split: if_splits)

lemma fresh_chan_append: "fresh_chan hp r \<Longrightarrow> fresh_chan (hp @ [c]) r"
  by (simp add: fresh_chan_def nth_append)

lemma inv_begun:
  assumes "queue_inv q hp pend" and "Process_begin env q hp = Inr (rc, hp')"
  shows "queue_inv q hp' (insert rc pend)"
proof -
  note i = queue_invD [OF assms(1)]
  from assms(2) have rc: "rc = length hp" and hp': "hp' = hp @ [make_chan 1]"
    by (auto simp: Process_begin_def split: if_splits)
  have new: "fresh_chan hp' rc"
    by (simp add: hp' rc fresh_chan_def)
  show ?thesis
  proof (rule queue_invI)
    show "distinct (map job_result (buf (q_queue q)))" by (rule i(1))
    show "job_result j \<notin> insert rc pend" if "j \<in> set (buf (q_queue q))" for j
      using i(2) [OF that] i(3) [OF that] rc by (auto simp: fresh_chan_def)
    show "fresh_chan hp' (job_result j)" if "j \<in> set (buf (q_queue q))" for j
      using i(3) [OF that] by (simp add: hp' fresh_chan_append)
    show "fresh_chan hp' r" if "r \<in> insert rc pend" for r
      using that new i(4) by (auto simp: hp' fresh_chan_append)
    show "cap (hp' ! r) = 1 \<and> \<not> is_closed (hp' ! r)" if "r < length hp'" for r
    proof (cases "r < length hp")
      case True
      then show ?thesis using i(5) by (simp add: hp' nth_append)
    next
      case False
      with that have "r = length hp" by (simp add: hp')
      then show ?thesis by (simp add: hp' make_chan_def)
    qed
  qed
qed

lemma enqueue_buf:
  "Process_enqueue env q c d rc k = Enqueued q'
     \<Longrightarrow> buf (q_queue q') = buf (q_queue q) @ [\<lparr>job_data = d, job_result = rc, job_context = c\<rparr>]"
  by (cases k) (auto simp: Process_enqueue_def chan_send_def split: if_splits attempt.splits)

lemma inv_enqueued:
  assumes "queue_inv q hp pend" and "rc \<in> pend" and "Process_enqueue env q c d rc k = Enqueued q'"
  shows "queue_inv q' hp (pend - {rc})"
proof -
  note i = queue_invD [OF assms(1)]
  note b = enqueue_buf [OF assms(3)]
  have fresh: "rc \<notin> job_result ` set (buf (q_queue q))"
    using i(2) assms(2) by auto
  show ?thesis
  proof (rule queue_invI)
    show "distinct (map job_result (buf (q_queue q')))"
      using i(1) fresh by (simp add: b)
    show "job_result j \<notin> pend - {rc}" if "j \<in> set (buf (q_queue q'))" for j
      using that i(2) by (auto simp: b)
    show "fresh_chan hp (job_result j)" if "j \<in> set (buf (q_queue q'))" for j
      using that i(3) i(4) [OF assms(2)] by (auto simp: b)
    show "fresh_chan hp r" if "r \<in> pend - {rc}" for r
      using that i(4) by simp
    show "cap (hp ! r) = 1 \<and> \<not> is_closed (hp ! r)" if "r < length hp" for r
      by (rule i(5) [OF that])
  qed
qed

lemma inv_returned:
  assumes "queue_inv q hp pend"
  shows "queue_inv q hp (pend - {rc})"
  using assms by (simp add: queue_inv_def)

lemma inv_closed:
  assumes "queue_inv q hp pend" and "Run env q = Proceeds q'"
  shows "queue_inv q' hp pend"
proof -
  from assms(2) have "buf (q_queue q') = buf (q_queue q)"
    by (auto simp: Run_def chan_close_def split: if_splits)
  with assms(1) show ?thesis by (simp add: queue_inv_def)
qed

lemma send_on_fresh:
  "fresh_chan hp r
     \<Longrightarrow> send_on hp r v = Proceeds (hp[r := \<lparr>cap = 1, buf = [v], is_closed = False\<rparr>])"
  by (simp add: fresh_chan_def send_on_def chan_send_def make_chan_def)

lemma worker_job_fresh:
  assumes "fresh_chan hp (job_result j)"
  shows "\<exists>v. snd (worker_job env h j hp)
            = Proceeds (hp[job_result j := \<lparr>cap = 1, buf = [v], is_closed = False\<rparr>])"
  using send_on_fresh [OF assms]
  by (cases "env (job_context j)") (auto simp: worker_job_def Let_def split: prod.splits)

lemma worker_iter_cases:
  "(\<exists>nxt. worker_iter env q hp c = ([], q, hp, nxt) \<and> (c \<in> set (worker_ready env q) \<longrightarrow> nxt = Returned))
   \<or> (\<exists>j rest acts nxt hp'. buf (q_queue q) = j # rest
        \<and> worker_iter env q hp c = (Receive j # acts, q\<lparr>q_queue := (q_queue q)\<lparr>buf := rest\<rparr>\<rparr>, hp', nxt)
        \<and> (case snd (worker_job env (q_handler q) j hp) of
              Proceeds h \<Rightarrow> hp' = h \<and> nxt = Continue
            | Blocks \<Rightarrow> hp' = hp \<and> nxt = Blocked
            | Panics \<Rightarrow> hp' = hp \<and> nxt = Panicked))"
proof (cases "c \<in> set (worker_ready env q)")
  case False
  then show ?thesis by (simp add: worker_iter_def)
next
  case True
  show ?thesis
  proof (cases c)
    case CtxDone
    with True show ?thesis by (simp add: worker_iter_def)
  next
    case RecvQueue
    show ?thesis
    proof (cases "buf (q_queue q)")
      case Nil
      with True RecvQueue show ?thesis
        by (auto simp: worker_iter_def worker_ready_def chan_recv_def split: if_splits)
    next
      case (Cons j rest)
      with True RecvQueue show ?thesis
        by (auto simp: worker_iter_def chan_recv_def split: prod.splits attempt.splits)
    qed
  qed
qed


lemma fresh_chan_update: "fresh_chan hp r \<Longrightarrow> r \<noteq> r' \<Longrightarrow> fresh_chan (hp[r' := c]) r"
  by (simp add: fresh_chan_def)

lemma inv_worked:
  assumes "queue_inv q hp pend" and "worker_iter env q hp k = (acts, q', hp', nxt)"
  shows "queue_inv q' hp' pend"
proof -
  note i = queue_invD [OF assms(1)]
  from worker_iter_cases [of env q hp k]
  consider "q' = q" "hp' = hp"
    | j rest where "buf (q_queue q) = j # rest" "q' = q\<lparr>q_queue := (q_queue q)\<lparr>buf := rest\<rparr>\<rparr>"
        "case snd (worker_job env (q_handler q) j hp) of
              Proceeds h \<Rightarrow> hp' = h \<and> nxt = Continue
            | Blocks \<Rightarrow> hp' = hp \<and> nxt = Blocked
            | Panics \<Rightarrow> hp' = hp \<and> nxt = Panicked"
    using assms(2) by auto
  then show ?thesis
  proof cases
    case 1
    with assms(1) show ?thesis by simp
  next
    case 2
    have jin: "j \<in> set (buf (q_queue q))" using 2(1) by simp
    have fj: "fresh_chan hp (job_result j)" by (rule i(3) [OF jin])
    from worker_job_fresh [OF fj, of env "q_handler q"] obtain v where
      "snd (worker_job env (q_handler q) j hp)
         = Proceeds (hp[job_result j := \<lparr>cap = 1, buf = [v], is_closed = False\<rparr>])" ..
    with 2(3) have hp': "hp' = hp[job_result j := \<lparr>cap = 1, buf = [v], is_closed = False\<rparr>]"
      by simp
    have b: "buf (q_queue q') = rest" by (simp add: 2(2))
    have d: "distinct (map job_result (j # rest))" using i(1) 2(1) by simp
    show ?thesis
    proof (rule queue_invI)
      show "distinct (map job_result (buf (q_queue q')))" using d by (simp add: b)
      show "job_result j' \<notin> pend" if "j' \<in> set (buf (q_queue q'))" for j'
        using that i(2) [of j'] by (simp add: b 2(1))
      show "fresh_chan hp' (job_result j')" if "j' \<in> set (buf (q_queue q'))" for j'
      proof -
        from that have "j' \<in> set rest" by (simp add: b)
        then have "job_result j' \<in> job_result ` set rest" by (rule imageI)
        moreover have "job_result j \<notin> job_result ` set rest" using d by simp
        ultimately have "job_result j' \<noteq> job_result j" by metis
        moreover have "fresh_chan hp (job_result j')"
          using \<open>j' \<in> set rest\<close> i(3) [of j'] by (simp add: 2(1))
        ultimately show ?thesis by (simp add: hp' fresh_chan_update)
      qed
      show "fresh_chan hp' r" if "r \<in> pend" for r
      proof -
        have "r \<noteq> job_result j" using that i(2) [OF jin] by auto
        with i(4) [OF that] show ?thesis by (simp add: hp' fresh_chan_update)
      qed
      show "cap (hp' ! r) = 1 \<and> \<not> is_closed (hp' ! r)" if "r < length hp'" for r
        using that i(5) [of r] by (cases "r = job_result j") (simp_all add: hp')
    qed
  qed
qed

lemma await_heap:
  assumes "Process_await env hp rc c k = Some (r, hp')"
  shows "hp' = hp \<or> (rc < length hp \<and> buf (hp ! rc) \<noteq> [] \<and> hp' = hp[rc := (hp ! rc)\<lparr>buf := tl (buf (hp ! rc))\<rparr>])
         \<or> (rc < length hp \<and> is_closed (hp ! rc) \<and> hp' = hp[rc := hp ! rc])"
  using assms
  by (cases k)
     (auto simp: Process_await_def recv_on_def chan_recv_def
           split: if_splits attempt.splits list.splits option.splits jobResult.splits prod.splits)

lemma inv_awaited:
  assumes "queue_inv q hp pend" and "Process_await env hp rc c k = Some (r, hp')"
  shows "queue_inv q hp' pend"
proof -
  note i = queue_invD [OF assms(1)]
  from await_heap [OF assms(2)]
  consider "hp' = hp"
    | "rc < length hp" "buf (hp ! rc) \<noteq> []" "hp' = hp[rc := (hp ! rc)\<lparr>buf := tl (buf (hp ! rc))\<rparr>]"
    by auto
  then show ?thesis
  proof cases
    case 1
    with assms(1) show ?thesis by simp
  next
    case 2
    have nf: "\<not> fresh_chan hp rc" using 2(2) by (auto simp: fresh_chan_def make_chan_def)
    show ?thesis
    proof (rule queue_invI)
      show "distinct (map job_result (buf (q_queue q)))" by (rule i(1))
      show "job_result j \<notin> pend" if "j \<in> set (buf (q_queue q))" for j by (rule i(2) [OF that])
      show "fresh_chan hp' (job_result j)" if "j \<in> set (buf (q_queue q))" for j
      proof -
        have "job_result j \<noteq> rc" using i(3) [OF that] nf by auto
        with i(3) [OF that] show ?thesis by (simp add: 2(3) fresh_chan_update)
      qed
      show "fresh_chan hp' r'" if "r' \<in> pend" for r'
      proof -
        have "r' \<noteq> rc" using i(4) [OF that] nf by auto
        with i(4) [OF that] show ?thesis by (simp add: 2(3) fresh_chan_update)
      qed
      show "cap (hp' ! r') = 1 \<and> \<not> is_closed (hp' ! r')" if "r' < length hp'" for r'
        using that i(5) [of r'] by (cases "r' = rc") (simp_all add: 2(3))
    qed
  qed
qed

lemma reachable_inv: "reachable q hp pend \<Longrightarrow> queue_inv q hp pend"
proof (induction rule: reachable.induct)
  case (made c n h q)
  then show ?case by (rule inv_made)
next
  case (begun q hp pend env resultChan hp')
  then show ?case by (simp add: inv_begun)
next
  case (enqueued q hp pend resultChan env c d k q')
  then show ?case by (simp add: inv_enqueued)
next
  case (returned q hp pend resultChan env c d k r)
  then show ?case by (simp add: inv_returned)
next
  case (worked q hp pend env k acts q' hp' nxt)
  then show ?case by (simp add: inv_worked)
next
  case (awaited q hp pend env resultChan c k r hp')
  then show ?case by (simp add: inv_awaited)
next
  case (closed q hp pend env q')
  then show ?case by (simp add: inv_closed)
qed


subsection \<open>The worker's treatment of a job\<close>

lemma worker_ready_job:
  "buf (q_queue q) = j # rest \<Longrightarrow> RecvQueue \<in> set (worker_ready env q)"
  by (simp add: worker_ready_def chan_recv_def)

lemma worker_iter_job:
  assumes "buf (q_queue q) = j # rest"
  shows "worker_iter env q hp RecvQueue =
     (case worker_job env (q_handler q) j hp of
        (acts, Proceeds hp') \<Rightarrow> (Receive j # acts, q\<lparr>q_queue := (q_queue q)\<lparr>buf := rest\<rparr>\<rparr>, hp', Continue)
      | (acts, Blocks) \<Rightarrow> (Receive j # acts, q\<lparr>q_queue := (q_queue q)\<lparr>buf := rest\<rparr>\<rparr>, hp, Blocked)
      | (acts, Panics) \<Rightarrow> (Receive j # acts, q\<lparr>q_queue := (q_queue q)\<lparr>buf := rest\<rparr>\<rparr>, hp, Panicked))"
  using assms worker_ready_job [OF assms, of env]
  by (simp add: worker_iter_def chan_recv_def)

text \<open>
  C7: for a job \<open>j\<close> that a worker receives (the head of the intake buffer; its result
  channel is the empty channel of capacity 1 that the job was made with, as in every
  reachable state): if the job's context is cancelled with error \<open>e\<close>, the worker
  sends \<^verbatim>\<open>jobResult{nil, e}\<close> on the job's result channel without calling the handler and
  goes on with the loop; otherwise it calls the handler on the job's context and
  payload, sends exactly the pair the handler returned, and goes on with the loop.
\<close>

theorem C7_worker_job:
  assumes "buf (q_queue q) = j # rest"
    and "fresh_chan hp (job_result j)"
  shows "(env (job_context j) = Some e \<longrightarrow>
            worker_iter env q hp RecvQueue =
              ([Receive j, SendResult (job_result j) (JobResult None (Some (ContextError e)))],
               q\<lparr>q_queue := (q_queue q)\<lparr>buf := rest\<rparr>\<rparr>,
               hp[job_result j :=
                    \<lparr>cap = 1, buf = [JobResult None (Some (ContextError e))], is_closed = False\<rparr>],
               Continue))
       \<and> (env (job_context j) = None \<longrightarrow>
            worker_iter env q hp RecvQueue =
              ([Receive j, CallHandler (job_context j) (job_data j),
                SendResult (job_result j)
                  (JobResult (fst (q_handler q (job_context j) (job_data j)))
                             (snd (q_handler q (job_context j) (job_data j))))],
               q\<lparr>q_queue := (q_queue q)\<lparr>buf := rest\<rparr>\<rparr>,
               hp[job_result j :=
                    \<lparr>cap = 1,
                     buf = [JobResult (fst (q_handler q (job_context j) (job_data j)))
                                      (snd (q_handler q (job_context j) (job_data j)))],
                     is_closed = False\<rparr>],
               Continue))"
  using send_on_fresh [OF assms(2)]
  by (simp add: worker_iter_job [OF assms(1)] worker_job_def Let_def split: prod.splits)

theorem C7_worker_job_witness:
  "buf (q_queue q_one_pending) = [job_of 0]
   \<and> fresh_chan [make_chan 1 :: nat jobResult chan] (job_result (job_of 0))
   \<and> env_caller_gone (job_context (job_of 0)) = Some DeadlineExceeded
   \<and> worker_iter env_caller_gone q_one_pending [make_chan 1] RecvQueue =
       ([Receive (job_of 0), SendResult 0 (JobResult None (Some (ContextError DeadlineExceeded)))],
        q_one,
        [\<lparr>cap = 1, buf = [JobResult None (Some (ContextError DeadlineExceeded))], is_closed = False\<rparr>],
        Continue)
   \<and> env_live (job_context (job_of 0)) = None
   \<and> worker_iter env_live q_one_pending [make_chan 1] RecvQueue =
       ([Receive (job_of 0), CallHandler 1 0, SendResult 0 (JobResult (Some 0) None)],
        q_one,
        [\<lparr>cap = 1, buf = [JobResult (Some 0) None], is_closed = False\<rparr>],
        Continue)"
  using C7_worker_job [of q_one_pending "job_of 0" "[]" "[make_chan 1]" env_caller_gone DeadlineExceeded]
    C7_worker_job [of q_one_pending "job_of 0" "[]" "[make_chan 1]" env_live DeadlineExceeded]
  by (simp add: q_one_pending_def q_one_def job_of_def env_caller_gone_def env_live_def
      echo_handler_def fresh_chan_def)

subsection \<open>Shutdown\<close>

text \<open>
  C6 (after shutdown a worker returns only once the enqueued jobs are drained) fails
  in that part: a worker can return while a job is still enqueued. A queue of one
  worker is made, one job is enqueued, the parent context is cancelled and \<^verbatim>\<open>Run\<close> closes
  the intake channel; both cases of the worker's \<^verbatim>\<open>select\<close> are then ready, and on the
  case of the parent's \<^verbatim>\<open>Done\<close> the worker returns with the job left in the channel.
\<close>

theorem C6_worker_drains_counterexample:
  "New 0 1 echo_handler = Proceeds q_one
   \<and> Process_begin env_live q_one [] = Inr (0, [make_chan 1])
   \<and> Process_enqueue env_live q_one 1 0 0 SendJob = Enqueued q_one_pending
   \<and> env_shutdown (q_ctx q_one_pending) = Some Canceled
   \<and> Run env_shutdown q_one_pending = Proceeds q_one_closed
   \<and> buf (q_queue q_one_closed) = [job_of 0]
   \<and> worker_ready env_shutdown q_one_closed = [RecvQueue, CtxDone]
   \<and> worker_iter env_shutdown q_one_closed [make_chan 1] CtxDone
       = ([], q_one_closed, [make_chan 1], Returned)"
  by (simp add: New_def wrap64_def q_one_def q_one_pending_def q_one_closed_def make_chan_def
      Process_begin_def Process_enqueue_def Process_enqueue_ready_def chan_send_def
      env_live_def env_shutdown_def job_of_def Run_def chan_close_def
      worker_ready_def worker_iter_def chan_recv_def)

text \<open>
  C6, amended: once the parent context is cancelled, every call of \<^verbatim>\<open>Process\<close> returns
  the shutdown error at its first check; \<^verbatim>\<open>Run\<close> closes the intake channel (it is called
  once: closing a closed channel would panic); and the \<^verbatim>\<open>select\<close> of a worker always has
  a ready case, the parent's \<^verbatim>\<open>Done\<close>, on which the worker returns whether or not jobs
  remain. On the receive case the worker takes the next job while one is enqueued and
  returns once the closed channel is drained.
\<close>

theorem C6_shutdown:
  assumes "env (q_ctx q) = Some e"
  shows "Process_begin env q hp = Inl (None, Some shutdown_error)
       \<and> (if is_closed (q_queue q) then Run env q = Panics
           else Run env q = Proceeds (q\<lparr>q_queue := (q_queue q)\<lparr>is_closed := True\<rparr>\<rparr>))
       \<and> CtxDone \<in> set (worker_ready env q)
       \<and> worker_iter env q hp CtxDone = ([], q, hp, Returned)
       \<and> (case buf (q_queue q) of
             [] \<Rightarrow> if is_closed (q_queue q)
                   then worker_iter env q hp RecvQueue = ([], q, hp, Returned)
                   else worker_iter env q hp RecvQueue = ([], q, hp, Blocked)
           | j # rest \<Rightarrow> fst (worker_iter env q hp RecvQueue) \<noteq> []
                         \<and> hd (fst (worker_iter env q hp RecvQueue)) = Receive j)"
proof -
  have 1: "Process_begin env q hp = Inl (None, Some shutdown_error)"
    using assms by (simp add: Process_begin_def)
  have 2: "if is_closed (q_queue q) then Run env q = Panics
           else Run env q = Proceeds (q\<lparr>q_queue := (q_queue q)\<lparr>is_closed := True\<rparr>\<rparr>)"
    using assms by (simp add: Run_def chan_close_def)
  have 3: "CtxDone \<in> set (worker_ready env q)"
    using assms by (simp add: worker_ready_def)
  then have 4: "worker_iter env q hp CtxDone = ([], q, hp, Returned)"
    by (simp add: worker_iter_def)
  have 5: "case buf (q_queue q) of
             [] \<Rightarrow> if is_closed (q_queue q)
                   then worker_iter env q hp RecvQueue = ([], q, hp, Returned)
                   else worker_iter env q hp RecvQueue = ([], q, hp, Blocked)
           | j # rest \<Rightarrow> fst (worker_iter env q hp RecvQueue) \<noteq> []
                         \<and> hd (fst (worker_iter env q hp RecvQueue)) = Receive j"
  proof (cases "buf (q_queue q)")
    case Nil
    then show ?thesis
      by (simp add: worker_iter_def worker_ready_def chan_recv_def)
  next
    case (Cons j rest)
    then show ?thesis
      by (simp add: worker_iter_def worker_ready_def chan_recv_def split: prod.splits attempt.splits)
  qed
  show ?thesis by (intro conjI 1 2 3 4 5)
qed

theorem C6_shutdown_witness:
  "env_shutdown (q_ctx q_one_closed) = Some Canceled
   \<and> Process_begin env_shutdown q_one_closed [make_chan 1] = Inl (None, Some shutdown_error)
   \<and> Run env_shutdown q_one_pending = Proceeds q_one_closed
   \<and> worker_iter env_shutdown q_one_closed [make_chan 1] CtxDone
       = ([], q_one_closed, [make_chan 1], Returned)
   \<and> hd (fst (worker_iter env_shutdown q_one_closed [make_chan 1] RecvQueue)) = Receive (job_of 0)"
  using C6_shutdown [of env_shutdown q_one_closed Canceled "[make_chan 1]"]
    C6_shutdown [of env_shutdown q_one_pending Canceled "[make_chan 1]"]
  by (simp add: env_shutdown_def q_one_closed_def q_one_pending_def)

subsection \<open>Thread pinning\<close>

lemma worker_job_actions:
  "UnlockOSThread \<notin> set (fst (worker_job env h j hp)) \<and> LockOSThread \<notin> set (fst (worker_job env h j hp))"
  by (simp add: worker_job_def Let_def split: option.splits prod.splits)

lemma worker_iter_actions:
  "UnlockOSThread \<notin> set (fst (worker_iter env q hp c)) \<and> LockOSThread \<notin> set (fst (worker_iter env q hp c))"
proof -
  have "set (fst (worker_iter env q hp c)) \<subseteq> {} \<or>
        (\<exists>j. set (fst (worker_iter env q hp c)) = insert (Receive j) (set (fst (worker_job env (q_handler q) j hp))))"
    by (auto simp: worker_iter_def split: wcase.splits attempt.splits option.splits prod.splits)
  then show ?thesis using worker_job_actions by fastforce
qed

lemma worker_loop_actions:
  "UnlockOSThread \<notin> set (worker_loop sched) \<and> LockOSThread \<notin> set (worker_loop sched)"
proof (induction sched)
  case Nil
  then show ?case by simp
next
  case (Cons s sched)
  obtain env q hp c where s: "s = (env, q, hp, c)" by (cases s) auto
  obtain acts q' hp' nxt where w: "worker_iter env q hp c = (acts, q', hp', nxt)"
    by (cases "worker_iter env q hp c") auto
  have "UnlockOSThread \<notin> set acts \<and> LockOSThread \<notin> set acts"
    using worker_iter_actions [of env q hp c] w by simp
  with Cons s w show ?case by (cases nxt) simp_all
qed

lemma lock_count_unchanged:
  "UnlockOSThread \<notin> set as \<Longrightarrow> LockOSThread \<notin> set as \<Longrightarrow> lock_count n as = n"
  by (induction n as rule: lock_count.induct) simp_all

text \<open>
  C10: in every run of a worker the first action is \<^verbatim>\<open>runtime.LockOSThread()\<close>, before
  any job is received; no later action locks again or is \<^verbatim>\<open>runtime.UnlockOSThread()\<close>. So
  after every non-empty prefix of the run the goroutine has one lock on its thread
  that it has not released, which is what keeps it on that thread.
\<close>

theorem C10_worker_pins_thread:
  "(\<exists>rest. worker sched = LockOSThread # rest
           \<and> UnlockOSThread \<notin> set rest \<and> LockOSThread \<notin> set rest)
   \<and> lock_count 0 (take (Suc n) (worker sched)) = 1"
proof -
  note a = worker_loop_actions [of sched]
  have "UnlockOSThread \<notin> set (take n (worker_loop sched))"
    and "LockOSThread \<notin> set (take n (worker_loop sched))"
    using a by (auto dest: in_set_takeD)
  then have "lock_count 1 (take n (worker_loop sched)) = 1"
    by (rule lock_count_unchanged)
  then have "lock_count 0 (take (Suc n) (worker sched)) = 1"
    by (simp add: worker_def)
  with a show ?thesis by (simp add: worker_def)
qed

subsection \<open>Awaiting the result\<close>

lemma await_caller_done:
  "env c = Some e \<Longrightarrow> AwaitCallerDone \<in> set (Process_await_ready env hp rc c)
     \<and> Process_await env hp rc c AwaitCallerDone = Some ((None, Some (ContextError e)), hp)"
  by (simp add: Process_await_ready_def Process_await_def)

lemma enqueue_caller_done:
  "env c = Some e \<Longrightarrow> CallerDone \<in> set (Process_enqueue_ready env q c d rc)
     \<and> Process_enqueue env q c d rc CallerDone = Return (None, Some (ContextError e))"
  by (simp add: Process_enqueue_ready_def Process_enqueue_def)

lemma await_returns:
  assumes open_chans: "\<And>r. r < length hp \<Longrightarrow> \<not> is_closed (hp ! r)"
    and "k \<in> set (Process_await_ready env hp rc c)"
  shows "\<exists>ret hp'. Process_await env hp rc c k = Some (ret, hp')
           \<and> ((\<exists>e. env c = Some e \<and> ret = (None, Some (ContextError e)))
              \<or> (\<exists>result err rest. buf (hp ! rc) = JobResult result err # rest
                    \<and> ret = (if err \<noteq> None then (None, err) else (result, None))))"
proof (cases k)
  case AwaitCallerDone
  with assms(2) obtain e where "env c = Some e"
    by (auto simp: Process_await_ready_def split: if_splits)
  with AwaitCallerDone await_caller_done [of env c e hp rc] show ?thesis by simp
next
  case RecvResult
  with assms(2) have r: "recv_on hp rc \<noteq> Blocks"
    by (auto simp: Process_await_ready_def split: if_splits)
  then have lt: "rc < length hp" by (auto simp: recv_on_def split: if_splits)
  with open_chans have op: "\<not> is_closed (hp ! rc)" by simp
  from r lt op obtain v rest where b: "buf (hp ! rc) = v # rest"
    by (cases "buf (hp ! rc)") (auto simp: recv_on_def chan_recv_def)
  obtain result err where v: "v = JobResult result err" by (cases v) auto
  show ?thesis
    using assms(2) RecvResult lt b v
    by (simp add: Process_await_def recv_on_def chan_recv_def)
qed

lemma worker_iter_ready_next:
  assumes "queue_inv q hp pend" and "k \<in> set (worker_ready env q)"
  shows "snd (snd (snd (worker_iter env q hp k))) = Continue
           \<or> snd (snd (snd (worker_iter env q hp k))) = Returned"
proof -
  from worker_iter_cases [of env q hp k]
  consider nxt where "worker_iter env q hp k = ([], q, hp, nxt)" "nxt = Returned"
    | j rest acts nxt hp' where "buf (q_queue q) = j # rest"
        "worker_iter env q hp k = (Receive j # acts, q\<lparr>q_queue := (q_queue q)\<lparr>buf := rest\<rparr>\<rparr>, hp', nxt)"
        "case snd (worker_job env (q_handler q) j hp) of
              Proceeds h \<Rightarrow> hp' = h \<and> nxt = Continue
            | Blocks \<Rightarrow> hp' = hp \<and> nxt = Blocked
            | Panics \<Rightarrow> hp' = hp \<and> nxt = Panicked"
    using assms(2) by auto
  then show ?thesis
  proof cases
    case 1
    then show ?thesis by simp
  next
    case 2
    have "fresh_chan hp (job_result j)"
      using queue_invD(3) [OF assms(1), of j] 2(1) by simp
    from worker_job_fresh [OF this, of env "q_handler q"] 2(3) have "nxt = Continue" by auto
    with 2(2) show ?thesis by simp
  qed
qed

lemma await_result_ready:
  assumes "rc < length hp" and "buf (hp ! rc) = JobResult result err # rest"
  shows "RecvResult \<in> set (Process_await_ready env hp rc c)
       \<and> Process_await env hp rc c RecvResult
           = Some ((if err \<noteq> None then (None, err) else (result, None)),
                   hp[rc := (hp ! rc)\<lparr>buf := rest\<rparr>])"
proof -
  have r: "recv_on hp rc = Proceeds (Some (JobResult result err), hp[rc := (hp ! rc)\<lparr>buf := rest\<rparr>])"
    using assms by (simp add: recv_on_def chan_recv_def)
  then have "RecvResult \<in> set (Process_await_ready env hp rc c)"
    by (simp add: Process_await_ready_def)
  then show ?thesis using r by (simp add: Process_await_def)
qed

lemma worker_iter_sends:
  assumes "buf (q_queue q) = j # rest" and "fresh_chan hp (job_result j)"
  shows "worker_iter env q hp RecvQueue =
           (Receive j # fst (worker_job env (q_handler q) j hp),
            q\<lparr>q_queue := (q_queue q)\<lparr>buf := rest\<rparr>\<rparr>,
            hp[job_result j :=
                 \<lparr>cap = 1,
                  buf = [case env (job_context j) of
                           Some e \<Rightarrow> JobResult None (Some (ContextError e))
                         | None \<Rightarrow> JobResult (fst (q_handler q (job_context j) (job_data j)))
                                             (snd (q_handler q (job_context j) (job_data j)))],
                  is_closed = False\<rparr>],
            Continue)"
  using send_on_fresh [OF assms(2)]
  by (cases "env (job_context j)")
     (simp_all add: worker_iter_job [OF assms(1)] worker_job_def Let_def split: prod.splits)

lemma sent_then_received:
  assumes "buf (q_queue q) = j # rest" and "fresh_chan hp (job_result j)"
  shows "\<exists>v hp'. fst (snd (snd (worker_iter wenv q hp RecvQueue))) = hp'
           \<and> snd (snd (snd (worker_iter wenv q hp RecvQueue))) = Continue
           \<and> v = (case wenv (job_context j) of
                    Some e \<Rightarrow> JobResult None (Some (ContextError e))
                  | None \<Rightarrow> JobResult (fst (q_handler q (job_context j) (job_data j)))
                                      (snd (q_handler q (job_context j) (job_data j))))
           \<and> buf (hp' ! job_result j) = [v]
           \<and> RecvResult \<in> set (Process_await_ready env hp' (job_result j) c)
           \<and> Process_await env hp' (job_result j) c RecvResult
               = Some ((case v of JobResult result err \<Rightarrow>
                          if err \<noteq> None then (None, err) else (result, None)),
                       hp'[job_result j := make_chan 1])"
proof -
  define v where "v = (case wenv (job_context j) of
                    Some e \<Rightarrow> JobResult None (Some (ContextError e))
                  | None \<Rightarrow> JobResult (fst (q_handler q (job_context j) (job_data j)))
                                      (snd (q_handler q (job_context j) (job_data j))))"
  define hp' where "hp' = hp[job_result j := \<lparr>cap = 1, buf = [v], is_closed = False\<rparr>]"
  have w: "worker_iter wenv q hp RecvQueue =
           (Receive j # fst (worker_job wenv (q_handler q) j hp),
            q\<lparr>q_queue := (q_queue q)\<lparr>buf := rest\<rparr>\<rparr>, hp', Continue)"
    using worker_iter_sends [OF assms, of wenv] by (simp add: hp'_def v_def)
  have lt: "job_result j < length hp'" using assms(2) by (simp add: hp'_def fresh_chan_def)
  have at: "hp' ! job_result j = \<lparr>cap = 1, buf = [v], is_closed = False\<rparr>"
    using assms(2) by (simp add: hp'_def fresh_chan_def)
  obtain result err where ve: "v = JobResult result err" by (cases v) auto
  have b: "buf (hp' ! job_result j) = JobResult result err # []" by (simp add: at ve)
  have upd: "hp'[job_result j := (hp' ! job_result j)\<lparr>buf := []\<rparr>] = hp'[job_result j := make_chan 1]"
    by (simp add: at make_chan_def)
  from await_result_ready [OF lt b, of env c]
  have "RecvResult \<in> set (Process_await_ready env hp' (job_result j) c)"
    and "Process_await env hp' (job_result j) c RecvResult
           = Some ((case v of JobResult result err \<Rightarrow>
                      if err \<noteq> None then (None, err) else (result, None)),
                   hp'[job_result j := make_chan 1])"
    by (simp_all add: upd ve)
  with w at show ?thesis by (simp add: v_def)
qed

lemma reachable_one_pending: "reachable q_one_pending [make_chan 1] {}"
proof -
  have "New 0 1 echo_handler = Proceeds q_one"
    by (simp add: New_def wrap64_def q_one_def make_chan_def)
  then have "reachable q_one [] {}" by (rule reachable.made)
  moreover have "Process_begin env_live q_one [] = Inr (0, [make_chan 1])"
    by (simp add: Process_begin_def env_live_def)
  ultimately have "reachable q_one [make_chan 1] (insert 0 {})" by (rule reachable.begun)
  moreover have "Process_enqueue env_live q_one 1 0 0 SendJob = Enqueued q_one_pending"
    by (simp add: Process_enqueue_def Process_enqueue_ready_def chan_send_def q_one_def
        q_one_pending_def job_of_def)
  ultimately have "reachable q_one_pending [make_chan 1] (insert 0 {} - {0})"
    by (intro reachable.enqueued [where resultChan = 0]) simp_all
  then show ?thesis by simp
qed

text \<open>
  C8: in every reachable state of the queue, (1) the send of the result of any enqueued
  job proceeds at once, whatever the contexts are and whether or not its caller still
  waits, because the job's result channel is empty and of capacity 1; (2) a worker
  whose \<^verbatim>\<open>select\<close> has chosen a ready case goes on with the loop or returns: it is never
  parked on the send; (3) the result channel \<^verbatim>\<open>Process\<close> makes has capacity 1; (4) once the
  caller's context is cancelled, the case of its \<^verbatim>\<open>Done\<close> is ready in the second
  \<^verbatim>\<open>select\<close> and returns the caller's cancellation error; (5) every ready case of the
  second \<^verbatim>\<open>select\<close> returns, either the caller's cancellation error or what the worker
  sent: \<^verbatim>\<open>(nil, err)\<close> when the error is not nil, else \<^verbatim>\<open>(result, nil)\<close>; (6) in the first
  \<^verbatim>\<open>select\<close> too the case of the caller's \<^verbatim>\<open>Done\<close> is ready once the caller's context is
  cancelled, and returns its error; (7) once a result is in the call's result channel,
  the receive case of the second \<^verbatim>\<open>select\<close> is ready and returns that result; (8) after the
  worker's iteration on the job at the head of the intake channel, the job's result
  channel holds what the worker sent (the cancellation error of the job's context, or
  the pair of the handler), and the receive case of the caller's second \<^verbatim>\<open>select\<close> is
  ready and returns it.
\<close>

theorem C8_process_never_hangs:
  assumes "reachable q hp pend"
  shows "(\<forall>j \<in> set (buf (q_queue q)).
            \<exists>v. snd (worker_job wenv (q_handler q) j hp)
                  = Proceeds (hp[job_result j := \<lparr>cap = 1, buf = [v], is_closed = False\<rparr>]))
       \<and> (\<forall>k \<in> set (worker_ready wenv q).
            snd (snd (snd (worker_iter wenv q hp k))) = Continue
            \<or> snd (snd (snd (worker_iter wenv q hp k))) = Returned)
       \<and> (\<forall>r hp'. Process_begin env q hp = Inr (r, hp') \<longrightarrow> hp' ! r = make_chan 1)
       \<and> (\<forall>e. env c = Some e \<longrightarrow>
            AwaitCallerDone \<in> set (Process_await_ready env hp rc c)
            \<and> Process_await env hp rc c AwaitCallerDone = Some ((None, Some (ContextError e)), hp))
       \<and> (\<forall>k \<in> set (Process_await_ready env hp rc c).
            \<exists>ret hp'. Process_await env hp rc c k = Some (ret, hp')
              \<and> ((\<exists>e. env c = Some e \<and> ret = (None, Some (ContextError e)))
                 \<or> (\<exists>result err rest. buf (hp ! rc) = JobResult result err # rest
                       \<and> ret = (if err \<noteq> None then (None, err) else (result, None)))))
       \<and> (\<forall>e. env c = Some e \<longrightarrow>
            CallerDone \<in> set (Process_enqueue_ready env q c d rc)
            \<and> Process_enqueue env q c d rc CallerDone = Return (None, Some (ContextError e)))
       \<and> (\<forall>result err rest. rc < length hp \<and> buf (hp ! rc) = JobResult result err # rest \<longrightarrow>
            RecvResult \<in> set (Process_await_ready env hp rc c)
            \<and> Process_await env hp rc c RecvResult
                = Some ((if err \<noteq> None then (None, err) else (result, None)),
                        hp[rc := (hp ! rc)\<lparr>buf := rest\<rparr>]))
       \<and> (\<forall>j rest. buf (q_queue q) = j # rest \<longrightarrow>
            (\<exists>v hp'. fst (snd (snd (worker_iter wenv q hp RecvQueue))) = hp'
               \<and> snd (snd (snd (worker_iter wenv q hp RecvQueue))) = Continue
               \<and> v = (case wenv (job_context j) of
                        Some e \<Rightarrow> JobResult None (Some (ContextError e))
                      | None \<Rightarrow> JobResult (fst (q_handler q (job_context j) (job_data j)))
                                          (snd (q_handler q (job_context j) (job_data j))))
               \<and> buf (hp' ! job_result j) = [v]
               \<and> RecvResult \<in> set (Process_await_ready env hp' (job_result j) c)
               \<and> Process_await env hp' (job_result j) c RecvResult
                   = Some ((case v of JobResult result err \<Rightarrow>
                              if err \<noteq> None then (None, err) else (result, None)),
                           hp'[job_result j := make_chan 1])))"
proof -
  note inv = reachable_inv [OF assms]
  note i = queue_invD [OF inv]
  have 1: "\<forall>j \<in> set (buf (q_queue q)).
            \<exists>v. snd (worker_job wenv (q_handler q) j hp)
                  = Proceeds (hp[job_result j := \<lparr>cap = 1, buf = [v], is_closed = False\<rparr>])"
    using i(3) worker_job_fresh by blast
  have 2: "\<forall>k \<in> set (worker_ready wenv q).
            snd (snd (snd (worker_iter wenv q hp k))) = Continue
            \<or> snd (snd (snd (worker_iter wenv q hp k))) = Returned"
    using worker_iter_ready_next [OF inv] by blast
  have 3: "\<forall>r hp'. Process_begin env q hp = Inr (r, hp') \<longrightarrow> hp' ! r = make_chan 1"
    by (auto simp: Process_begin_def split: if_splits)
  have 4: "\<forall>e. env c = Some e \<longrightarrow>
            AwaitCallerDone \<in> set (Process_await_ready env hp rc c)
            \<and> Process_await env hp rc c AwaitCallerDone = Some ((None, Some (ContextError e)), hp)"
    using await_caller_done by blast
  have op: "\<And>r. r < length hp \<Longrightarrow> \<not> is_closed (hp ! r)" using i(5) by simp
  have 5: "\<forall>k \<in> set (Process_await_ready env hp rc c).
            \<exists>ret hp'. Process_await env hp rc c k = Some (ret, hp')
              \<and> ((\<exists>e. env c = Some e \<and> ret = (None, Some (ContextError e)))
                 \<or> (\<exists>result err rest. buf (hp ! rc) = JobResult result err # rest
                       \<and> ret = (if err \<noteq> None then (None, err) else (result, None))))"
    using await_returns [OF op] by blast
  have 6: "\<forall>e. env c = Some e \<longrightarrow>
            CallerDone \<in> set (Process_enqueue_ready env q c d rc)
            \<and> Process_enqueue env q c d rc CallerDone = Return (None, Some (ContextError e))"
    by (simp add: enqueue_caller_done)
  have 7: "\<forall>result err rest. rc < length hp \<and> buf (hp ! rc) = JobResult result err # rest \<longrightarrow>
            RecvResult \<in> set (Process_await_ready env hp rc c)
            \<and> Process_await env hp rc c RecvResult
                = Some ((if err \<noteq> None then (None, err) else (result, None)),
                        hp[rc := (hp ! rc)\<lparr>buf := rest\<rparr>])"
    using await_result_ready [of rc hp _ _ _ env c] by simp
  have 8: "\<forall>j rest. buf (q_queue q) = j # rest \<longrightarrow>
            (\<exists>v hp'. fst (snd (snd (worker_iter wenv q hp RecvQueue))) = hp'
               \<and> snd (snd (snd (worker_iter wenv q hp RecvQueue))) = Continue
               \<and> v = (case wenv (job_context j) of
                        Some e \<Rightarrow> JobResult None (Some (ContextError e))
                      | None \<Rightarrow> JobResult (fst (q_handler q (job_context j) (job_data j)))
                                          (snd (q_handler q (job_context j) (job_data j))))
               \<and> buf (hp' ! job_result j) = [v]
               \<and> RecvResult \<in> set (Process_await_ready env hp' (job_result j) c)
               \<and> Process_await env hp' (job_result j) c RecvResult
                   = Some ((case v of JobResult result err \<Rightarrow>
                              if err \<noteq> None then (None, err) else (result, None)),
                           hp'[job_result j := make_chan 1]))"
  proof (intro allI impI)
    fix j rest assume b: "buf (q_queue q) = j # rest"
    then have "fresh_chan hp (job_result j)" using i(3) [of j] by simp
    from sent_then_received [OF b this, of wenv env c]
    show "\<exists>v hp'. fst (snd (snd (worker_iter wenv q hp RecvQueue))) = hp'
               \<and> snd (snd (snd (worker_iter wenv q hp RecvQueue))) = Continue
               \<and> v = (case wenv (job_context j) of
                        Some e \<Rightarrow> JobResult None (Some (ContextError e))
                      | None \<Rightarrow> JobResult (fst (q_handler q (job_context j) (job_data j)))
                                          (snd (q_handler q (job_context j) (job_data j))))
               \<and> buf (hp' ! job_result j) = [v]
               \<and> RecvResult \<in> set (Process_await_ready env hp' (job_result j) c)
               \<and> Process_await env hp' (job_result j) c RecvResult
                   = Some ((case v of JobResult result err \<Rightarrow>
                              if err \<noteq> None then (None, err) else (result, None)),
                           hp'[job_result j := make_chan 1])" .
  qed
  show ?thesis by (intro conjI 1 2 3 4 5 6 7 8)
qed

theorem C8_process_never_hangs_witness:
  "reachable q_one_pending [make_chan 1] {}
   \<and> snd (worker_job env_caller_gone echo_handler (job_of 0) [make_chan 1])
       = Proceeds [\<lparr>cap = 1, buf = [JobResult None (Some (ContextError DeadlineExceeded))],
                    is_closed = False\<rparr>]
   \<and> snd (snd (snd (worker_iter env_caller_gone q_one_pending [make_chan 1] RecvQueue))) = Continue
   \<and> Process_await_ready env_caller_gone [make_chan 1 :: nat jobResult chan] 0 1 = [AwaitCallerDone]
   \<and> Process_await env_caller_gone [make_chan 1 :: nat jobResult chan] 0 1 AwaitCallerDone
       = Some ((None, Some (ContextError DeadlineExceeded)), [make_chan 1])
   \<and> buf (q_queue q_one_pending) = [job_of 0]
   \<and> fst (snd (snd (worker_iter env_live q_one_pending [make_chan 1] RecvQueue)))
       = [\<lparr>cap = 1, buf = [JobResult (Some 0) None], is_closed = False\<rparr>]
   \<and> Process_await_ready env_live
        [\<lparr>cap = 1, buf = [JobResult (Some 0) None :: nat jobResult], is_closed = False\<rparr>] 0 1
       = [RecvResult]
   \<and> Process_await env_live
        [\<lparr>cap = 1, buf = [JobResult (Some 0) None :: nat jobResult], is_closed = False\<rparr>] 0 1 RecvResult
       = Some ((Some 0, None), [make_chan 1])"
proof -
  have old: "snd (worker_job env_caller_gone echo_handler (job_of 0) [make_chan 1])
       = Proceeds [\<lparr>cap = 1, buf = [JobResult None (Some (ContextError DeadlineExceeded))],
                    is_closed = False\<rparr>]
   \<and> snd (snd (snd (worker_iter env_caller_gone q_one_pending [make_chan 1] RecvQueue))) = Continue
   \<and> Process_await_ready env_caller_gone [make_chan 1 :: nat jobResult chan] 0 1 = [AwaitCallerDone]
   \<and> Process_await env_caller_gone [make_chan 1 :: nat jobResult chan] 0 1 AwaitCallerDone
       = Some ((None, Some (ContextError DeadlineExceeded)), [make_chan 1])"
    using C8_process_never_hangs [OF reachable_one_pending, of env_caller_gone env_caller_gone 1 0]
    by (simp add: q_one_pending_def job_of_def env_caller_gone_def echo_handler_def
      worker_job_def send_on_def chan_send_def make_chan_def worker_ready_def chan_recv_def
      worker_iter_def Process_await_ready_def Process_await_def recv_on_def Let_def)
  have b: "buf (q_queue q_one_pending) = [job_of 0]"
    by (simp add: q_one_pending_def)
  have w: "fst (snd (snd (worker_iter env_live q_one_pending [make_chan 1] RecvQueue)))
       = [\<lparr>cap = 1, buf = [JobResult (Some 0) None], is_closed = False\<rparr>]"
    by (simp add: q_one_pending_def job_of_def env_live_def echo_handler_def
      worker_job_def send_on_def chan_send_def make_chan_def worker_ready_def chan_recv_def
      worker_iter_def Let_def)
  have new: "Process_await_ready env_live
        [\<lparr>cap = 1, buf = [JobResult (Some 0) None :: nat jobResult], is_closed = False\<rparr>] 0 1
       = [RecvResult]
   \<and> Process_await env_live
        [\<lparr>cap = 1, buf = [JobResult (Some 0) None :: nat jobResult], is_closed = False\<rparr>] 0 1 RecvResult
       = Some ((Some 0, None), [make_chan 1])"
    using C8_process_never_hangs [OF reachable_one_pending, of env_live env_live 1 0] b w
    by (simp add: q_one_pending_def job_of_def env_live_def echo_handler_def
      Process_await_ready_def recv_on_def chan_recv_def make_chan_def)
  show ?thesis using reachable_one_pending old b w new by simp
qed

section \<open>Properties of the coalescing handler\<close>

lemma key_p_blur: "buildCacheKey ''7'' p_blur = ''7-200x200.webp-blur_3''"
  by (simp add: buildCacheKey_shape p_blur_def itoa_def utoa.simps digits_def)





text \<open>
  C2: on every exit of the producer, a panic during processing included, the in-flight
  entry should be deleted and then the completion channel closed. The code does so on
  return, not on a panic. Evaluated on the first request for a key whose
  \<^verbatim>\<open>ProcessImage\<close> call panics: the request has stored its channel, the panic unwinds past the cleanup to \<^verbatim>\<open>Recovery\<close>, which
  answers 500, and afterwards the entry is still in the in-flight map and the channel is
  still open; the next request for the key loads that channel and its \<^verbatim>\<open>select\<close> has no
  ready case while its own context is live. On the two exits by return (success, and an
  error such as the queue-full one) the same request deletes the entry and then closes
  the channel.
\<close>

theorem C2_panic_leaks_inflight_entry:
  "imageHandler_lookup NewAPI newResponseWriter ''7'' p_blur
     = (api_claimed\<lparr>requestsProcessed := 0\<rparr>, newResponseWriter, Producing False 0)
   \<and> imageHandler_process (api_claimed\<lparr>requestsProcessed := 0\<rparr>) = api_claimed
   \<and> imageHandler_finish api_claimed newResponseWriter ''7'' p_blur False 0 ProcPanics
       = (api_claimed, newResponseWriter, Unwinding)
   \<and> inflight api_claimed (buildCacheKey ''7'' p_blur) = Some 0
   \<and> \<not> is_closed (dones api_claimed ! 0)
   \<and> ops api_claimed = [LoadOrStore (buildCacheKey ''7'' p_blur) 0 False]
   \<and> Recovery newResponseWriter True
       = (newResponseWriter\<lparr>status := Some 500\<rparr>, [(Error, ''panic handling request'')])
   \<and> imageHandler_lookup api_claimed newResponseWriter ''7'' p_blur
       = (api_second, newResponseWriter, Waiting 0 1)
   \<and> imageHandler_wait_ready env_live api_second 0 1 = []
   \<and> ops (fst (imageHandler_finish api_claimed newResponseWriter ''7'' p_blur False 0
                  (ProcReturns some_image None)))
       = [LoadOrStore (buildCacheKey ''7'' p_blur) 0 False,
          Delete (buildCacheKey ''7'' p_blur), Close 0]
   \<and> ops (fst (imageHandler_finish api_claimed newResponseWriter ''7'' p_blur False 0
                  (ProcReturns [] (Some ErrQueueFull))))
       = [LoadOrStore (buildCacheKey ''7'' p_blur) 0 False,
          Delete (buildCacheKey ''7'' p_blur), Close 0]"
proof -
  have 1: "imageHandler_lookup NewAPI newResponseWriter ''7'' p_blur
     = (api_claimed\<lparr>requestsProcessed := 0\<rparr>, newResponseWriter, Producing False 0)"
    by (simp add: imageHandler_lookup_def key_p_blur NewAPI_def api_claimed_def Let_def)
  have 2: "imageHandler_process (api_claimed\<lparr>requestsProcessed := 0\<rparr>) = api_claimed"
    by (simp add: imageHandler_process_def api_claimed_def)
  have 3: "imageHandler_finish api_claimed newResponseWriter ''7'' p_blur False 0 ProcPanics
       = (api_claimed, newResponseWriter, Unwinding)"
    by (simp add: imageHandler_finish_def)
  have 4: "inflight api_claimed (buildCacheKey ''7'' p_blur) = Some 0"
    "\<not> is_closed (dones api_claimed ! 0)"
    "ops api_claimed = [LoadOrStore (buildCacheKey ''7'' p_blur) 0 False]"
    by (simp_all add: key_p_blur api_claimed_def make_chan_def)
  have 5: "Recovery newResponseWriter True
       = (newResponseWriter\<lparr>status := Some 500\<rparr>, [(Error, ''panic handling request'')])"
    by (simp add: Recovery_def WriteHeader_def StatusInternalServerError_def newResponseWriter_def)
  have 6: "imageHandler_lookup api_claimed newResponseWriter ''7'' p_blur
       = (api_second, newResponseWriter, Waiting 0 1)"
    by (simp add: imageHandler_lookup_def key_p_blur api_claimed_def api_second_def Let_def)
  have 7: "imageHandler_wait_ready env_live api_second 0 1 = []"
    by (simp add: imageHandler_wait_ready_def api_second_def chan_recv_def make_chan_def env_live_def)
  have 8: "ops (fst (imageHandler_finish api_claimed newResponseWriter ''7'' p_blur False 0
                  (ProcReturns some_image None)))
       = [LoadOrStore (buildCacheKey ''7'' p_blur) 0 False,
          Delete (buildCacheKey ''7'' p_blur), Close 0]"
    by (simp add: imageHandler_finish_def imageHandler_respond_def inflight_Delete_def
        close_done_def chan_close_def key_p_blur api_claimed_def make_chan_def)
  have 9: "ops (fst (imageHandler_finish api_claimed newResponseWriter ''7'' p_blur False 0
                  (ProcReturns [] (Some ErrQueueFull))))
       = [LoadOrStore (buildCacheKey ''7'' p_blur) 0 False,
          Delete (buildCacheKey ''7'' p_blur), Close 0]"
    by (simp add: imageHandler_finish_def imageHandler_respond_def inflight_Delete_def
        close_done_def chan_close_def key_p_blur api_claimed_def make_chan_def)
  show ?thesis by (intro conjI 1 2 3 4 5 6 7 8 9)
qed



end
